theory Spec2Isabelle
  imports Complex_Main "HOL-Library.Word" "HOL-Library.Multiset"
begin

section \<open>Decimal rendering of integers\<close>

text \<open>
  \<^verbatim>\<open>std::to_string(int)\<close> prints the decimal digits of the value, with a leading
  minus sign for a negative one.
\<close>

definition digit_char :: "nat \<Rightarrow> char" where
  "digit_char n = ''0123456789'' ! (n mod 10)"

fun dec_nat :: "nat \<Rightarrow> string" where
  "dec_nat n = (if n < 10 then [digit_char n] else dec_nat (n div 10) @ [digit_char n])"

definition to_string :: "int \<Rightarrow> string" where
  "to_string i = (if i < 0 then CHR ''-'' # dec_nat (nat (- i)) else dec_nat (nat i))"

section \<open>CounterMetric\<close>

text \<open>
  The accumulator is a \<^verbatim>\<open>std::atomic<int>\<close>: a 32-bit two's complement integer.
  \<^verbatim>\<open>fetch_add\<close> on an atomic signed integer is defined to wrap around.
  Every atomic read-modify-write on one object takes its place in the single
  modification order of that object, so a run of concurrent \<^verbatim>\<open>increment\<close> calls is
  the fold of \<open>increment\<close> over the calls in some order. The argument is an \<^verbatim>\<open>int\<close>;
  \<^verbatim>\<open>increment()\<close> without one is \<open>increment c 1\<close>.
\<close>

text \<open>
  The private fields \<^verbatim>\<open>name_\<close> and \<^verbatim>\<open>value_\<close> are written \<open>counter_name\<close> and
  \<open>counter_value\<close> (an identifier cannot end in an underscore here).
\<close>

record CounterMetric =
  counter_name :: string
  counter_value :: "32 word"

definition CounterMetric :: "string \<Rightarrow> CounterMetric" where
  "CounterMetric name = \<lparr>counter_name = name, counter_value = 0\<rparr>"

definition increment :: "CounterMetric \<Rightarrow> 32 word \<Rightarrow> CounterMetric" where
  "increment c v = c\<lparr>counter_value := counter_value c + v\<rparr>"

definition get :: "CounterMetric \<Rightarrow> int" where
  "get c = sint (counter_value c)"

section \<open>Double-precision numbers\<close>

text \<open>
  \<^verbatim>\<open>double\<close> is IEEE 754 binary64 in the default rounding mode (to nearest, ties to
  even). A finite value is carried as the rational it denotes; the two zeros are
  \<open>Finite 0\<close> and \<open>NegZero\<close>. Every operation is the exact rational result, rounded:
  the significand has 53 bits, the least exponent of a unit in the last place is
  \<open>-1074\<close>, and a rounded magnitude of \<open>2 ^ 1024\<close> or more is an infinity. The sign
  and payload of a NaN are not modelled.
\<close>

datatype double = Finite rat | NegZero | PosInf | NegInf | NaN

definition pow2 :: "int \<Rightarrow> rat" where
  "pow2 e = (if 0 \<le> e then of_int (2 ^ nat e) else 1 / of_int (2 ^ nat (- e)))"

function bit_length :: "int \<Rightarrow> int" where
  "bit_length n = (if n \<le> 0 then 0 else 1 + bit_length (n div 2))"
  by pat_completeness auto
termination
  by (relation "measure nat") auto

text \<open>For \<open>0 < q\<close>, the exponent \<open>e\<close> with \<open>2 ^ e \<le> q < 2 ^ (e + 1)\<close>.\<close>

definition floor_log2 :: "rat \<Rightarrow> int" where
  "floor_log2 q =
     (let k = bit_length (fst (quotient_of q)) - bit_length (snd (quotient_of q))
      in if pow2 k \<le> q then k else k - 1)"

definition round_half_even :: "rat \<Rightarrow> int" where
  "round_half_even x =
     (let f = \<lfloor>x\<rfloor>; r = x - of_int f
      in if r < 1 / 2 then f else if 1 / 2 < r then f + 1 else if even f then f else f + 1)"

text \<open>
  Rounding of a non-zero exact result \<open>q\<close> to a double. A result that rounds to
  zero keeps its sign.
\<close>

definition round_double :: "rat \<Rightarrow> double" where
  "round_double q =
     (let a = \<bar>q\<bar>;
          p = max (floor_log2 a - 52) (- 1074);
          m = round_half_even (a / pow2 p);
          a' = of_int m * pow2 p
      in if 1024 \<le> floor_log2 a' then (if 0 < q then PosInf else NegInf)
         else if m = 0 then (if 0 < q then Finite 0 else NegZero)
         else Finite (if 0 < q then a' else - a'))"

definition is_zero :: "double \<Rightarrow> bool" where
  "is_zero d = (d = Finite 0 \<or> d = NegZero)"

definition is_inf :: "double \<Rightarrow> bool" where
  "is_inf d = (d = PosInf \<or> d = NegInf)"

definition sign_bit :: "double \<Rightarrow> bool" where
  "sign_bit d =
     (case d of Finite q \<Rightarrow> q < 0 | NegZero \<Rightarrow> True | NegInf \<Rightarrow> True | _ \<Rightarrow> False)"

text \<open>The value of a finite double (of either zero: 0).\<close>

definition valof :: "double \<Rightarrow> rat" where
  "valof d = (case d of Finite q \<Rightarrow> q | _ \<Rightarrow> 0)"

text \<open>\<^verbatim>\<open>x + y\<close> on doubles.\<close>

definition dadd :: "double \<Rightarrow> double \<Rightarrow> double" where
  "dadd x y =
     (if x = NaN \<or> y = NaN then NaN
      else if is_inf x then (if is_inf y \<and> y \<noteq> x then NaN else x)
      else if is_inf y then y
      else if x = NegZero \<and> y = NegZero then NegZero
      else if valof x + valof y = 0 then Finite 0
      else round_double (valof x + valof y))"

text \<open>\<^verbatim>\<open>x / y\<close> on doubles.\<close>

definition ddiv :: "double \<Rightarrow> double \<Rightarrow> double" where
  "ddiv x y =
     (let neg = (sign_bit x \<noteq> sign_bit y) in
      if x = NaN \<or> y = NaN then NaN
      else if is_inf x then (if is_inf y then NaN else if neg then NegInf else PosInf)
      else if is_inf y then (if neg then NegZero else Finite 0)
      else if is_zero y then (if is_zero x then NaN else if neg then NegInf else PosInf)
      else if is_zero x then (if neg then NegZero else Finite 0)
      else round_double (valof x / valof y))"

text \<open>The conversion of an \<^verbatim>\<open>int\<close> to \<^verbatim>\<open>double\<close>: exact, 32 bits fit the significand.\<close>

definition double_of_int :: "32 word \<Rightarrow> double" where
  "double_of_int n = Finite (of_int (sint n))"

text \<open>
  \<^verbatim>\<open>oss << std::fixed << std::setprecision(2) << d\<close>, that is \<^verbatim>\<open>printf("%.2f", d)\<close>:
  the exact value rounded to hundredths (ties to even), sign first. An infinity
  prints as \<open>inf\<close> and a NaN as \<open>nan\<close>. The code prints \<open>-nan\<close> for a NaN whose sign
  bit is set (the sum after \<^verbatim>\<open>add(inf)\<close> and \<^verbatim>\<open>add(-inf)\<close> on x86-64); the one \<open>NaN\<close> of
  this type has no sign, so that rendering is outside what is stated of \<open>fixed2\<close> below.
\<close>

definition fixed2 :: "double \<Rightarrow> string" where
  "fixed2 d =
     (if d = NaN then ''nan''
      else if d = PosInf then ''inf''
      else if d = NegInf then ''-inf''
      else let h = nat (round_half_even (\<bar>valof d\<bar> * 100))
           in (if sign_bit d then ''-'' else []) @ dec_nat (h div 100) @ ''.'' @
              [digit_char (h div 10), digit_char h])"

text \<open>The doubles: the values that rounding leaves as they are.\<close>

definition is_double :: "double \<Rightarrow> bool" where
  "is_double d = (case d of Finite q \<Rightarrow> q = 0 \<or> round_double q = Finite q | _ \<Rightarrow> True)"

section \<open>AverageMetric\<close>

text \<open>
  \<^verbatim>\<open>sum_\<close> and \<^verbatim>\<open>count_\<close> are guarded by the metric's own mutex: every member function
  runs as one step. \<^verbatim>\<open>count_\<close> is a plain \<^verbatim>\<open>int\<close>; it is modelled as a 32-bit word,
  and the results below are stated for fewer than \<open>2 ^ 31\<close> additions, where the
  increment does not overflow.
\<close>

record AverageMetric =
  average_name :: string
  average_sum :: double
  average_count :: "32 word"

definition AverageMetric :: "string \<Rightarrow> AverageMetric" where
  "AverageMetric name = \<lparr>average_name = name, average_sum = Finite 0, average_count = 0\<rparr>"

definition add :: "AverageMetric \<Rightarrow> double \<Rightarrow> AverageMetric" where
  "add a v = a\<lparr>average_sum := dadd (average_sum a) v, average_count := average_count a + 1\<rparr>"

definition get_average :: "AverageMetric \<Rightarrow> double" where
  "get_average a =
     (if average_count a \<noteq> 0 then ddiv (average_sum a) (double_of_int (average_count a))
      else Finite 0)"

section \<open>The metric interface\<close>

text \<open>
  The overrides of \<^verbatim>\<open>name\<close>, \<^verbatim>\<open>value_string\<close> and \<^verbatim>\<open>reset\<close> in the two classes, and
  the virtual calls through \<^verbatim>\<open>IMetric\<close>.
\<close>

definition counter_value_string :: "CounterMetric \<Rightarrow> string" where
  "counter_value_string c = to_string (get c)"

definition counter_reset :: "CounterMetric \<Rightarrow> CounterMetric" where
  "counter_reset c = c\<lparr>counter_value := 0\<rparr>"

definition average_value_string :: "AverageMetric \<Rightarrow> string" where
  "average_value_string a = fixed2 (get_average a)"

definition average_reset :: "AverageMetric \<Rightarrow> AverageMetric" where
  "average_reset a = a\<lparr>average_sum := Finite 0, average_count := 0\<rparr>"

datatype metric = Counter CounterMetric | Average AverageMetric

fun name :: "metric \<Rightarrow> string" where
  "name (Counter c) = counter_name c"
| "name (Average a) = average_name a"

fun value_string :: "metric \<Rightarrow> string" where
  "value_string (Counter c) = counter_value_string c"
| "value_string (Average a) = average_value_string a"

fun reset :: "metric \<Rightarrow> metric" where
  "reset (Counter c) = Counter (counter_reset c)"
| "reset (Average a) = Average (average_reset a)"

section \<open>The clock and the timestamp\<close>

text \<open>
  \<^verbatim>\<open>system_clock::now()\<close> is a count of nanoseconds since the epoch. The casts to
  seconds and to milliseconds divide as C++ does, towards zero, and \<^verbatim>\<open>%\<close> takes
  the sign of the dividend.
\<close>

definition quotient :: "int \<Rightarrow> int \<Rightarrow> int" where
  "quotient x y = (if (x < 0) = (y < 0) then \<bar>x\<bar> div \<bar>y\<bar> else - (\<bar>x\<bar> div \<bar>y\<bar>))"

definition remainder :: "int \<Rightarrow> int \<Rightarrow> int" where
  "remainder x y = x - y * quotient x y"

definition to_time_t :: "int \<Rightarrow> int" where
  "to_time_t now = quotient now 1000000000"

definition ms_count :: "int \<Rightarrow> int" where
  "ms_count now = remainder (quotient now 1000000) 1000"

text \<open>
  The fields of \<^verbatim>\<open>struct tm\<close> that the format reads. \<^verbatim>\<open>std::localtime\<close> depends on
  the time zone of the process: it is a parameter \<open>localtime\<close> of the flush cycle.
\<close>

record tm =
  tm_sec :: int
  tm_min :: int
  tm_hour :: int
  tm_mday :: int
  tm_mon :: int
  tm_year :: int

text \<open>\<^verbatim>\<open>std::setw(w) << std::setfill(c)\<close> before one output: padding on the left.\<close>

definition pad_left :: "nat \<Rightarrow> char \<Rightarrow> string \<Rightarrow> string" where
  "pad_left w c s = replicate (w - length s) c @ s"

text \<open>
  \<^verbatim>\<open>std::put_time(t, "%Y-%m-%d %H:%M:%S")\<close>: \<^verbatim>\<open>%Y\<close> is the year \<open>1900 + tm_year\<close> in
  decimal, the other conversions are two digits, padded with a zero.
\<close>

definition put_time :: "tm \<Rightarrow> string" where
  "put_time t =
     to_string (1900 + tm_year t) @ ''-'' @
     pad_left 2 CHR ''0'' (to_string (tm_mon t + 1)) @ ''-'' @
     pad_left 2 CHR ''0'' (to_string (tm_mday t)) @ '' '' @
     pad_left 2 CHR ''0'' (to_string (tm_hour t)) @ '':'' @
     pad_left 2 CHR ''0'' (to_string (tm_min t)) @ '':'' @
     pad_left 2 CHR ''0'' (to_string (tm_sec t))"

definition timestamp :: "(int \<Rightarrow> tm) \<Rightarrow> int \<Rightarrow> string" where
  "timestamp localtime now =
     put_time (localtime (to_time_t now)) @ ''.'' @ pad_left 3 CHR ''0'' (to_string (ms_count now))"

section \<open>The sink: a file opened for appending\<close>

text \<open>
  A path of the file system is missing (and can be created), a regular file with its
  contents, or cannot be opened for writing. \<^verbatim>\<open>std::ofstream file(filename_, std::ios::app)\<close>
  creates a missing file; on a path that cannot be written the stream is in the
  failed state. \<^verbatim>\<open>file << s\<close> appends to an open file and does nothing on a failed
  stream. No exception is thrown: the exception mask of a new stream is empty.
\<close>

datatype node = Missing | Regular string | Unwritable

type_synonym filesystem = "string \<Rightarrow> node"

record ofstream =
  path :: string
  failbit :: bool

definition ofstream_app :: "filesystem \<Rightarrow> string \<Rightarrow> ofstream \<times> filesystem" where
  "ofstream_app fs p =
     (case fs p of
        Missing \<Rightarrow> (\<lparr>path = p, failbit = False\<rparr>, fs(p := Regular []))
      | Regular s \<Rightarrow> (\<lparr>path = p, failbit = False\<rparr>, fs)
      | Unwritable \<Rightarrow> (\<lparr>path = p, failbit = True\<rparr>, fs))"

definition ofstream_put :: "ofstream \<Rightarrow> string \<Rightarrow> filesystem \<Rightarrow> filesystem" where
  "ofstream_put f s fs =
     (if failbit f then fs
      else case fs (path f) of Regular old \<Rightarrow> fs(path f := Regular (old @ s)) | _ \<Rightarrow> fs)"

section \<open>MetricsRegistry: the flush cycle\<close>

text \<open>
  \<^verbatim>\<open>metrics_\<close> is a vector of shared pointers, each to an object made by
  \<^verbatim>\<open>register_metric\<close> and pushed once: the objects are the list \<open>metrics\<close>, in
  registration order, and the handle that \<^verbatim>\<open>register_metric\<close> returns is the position
  in it. The fields \<^verbatim>\<open>mutex_\<close>, \<^verbatim>\<open>cond_\<close> and \<^verbatim>\<open>worker_\<close> are part of the threads' state
  further down.
\<close>

record MetricsRegistry =
  filename :: string
  flush_period_ms :: "32 word"
  metrics :: "metric list"
  stop_flag :: bool

text \<open>
  The calls a flush cycle makes, in the order it makes them: \<^verbatim>\<open>value_string\<close> on the
  metric at a position, the write of a record to the sink, \<^verbatim>\<open>reset\<close> on the metric at
  a position. The log \<open>calls\<close> is there to state the order; nothing reads it.
\<close>

datatype call = Render nat | Write string | Reset nat

record shared =
  registry :: MetricsRegistry
  files :: filesystem
  calls :: "call list"

datatype kind = CounterKind | AverageKind

definition make_shared :: "kind \<Rightarrow> string \<Rightarrow> metric" where
  "make_shared k n = (case k of CounterKind \<Rightarrow> Counter (CounterMetric n)
                               | AverageKind \<Rightarrow> Average (AverageMetric n))"

definition push_back :: "metric \<Rightarrow> MetricsRegistry \<Rightarrow> MetricsRegistry" where
  "push_back m r = r\<lparr>metrics := metrics r @ [m]\<rparr>"

definition register_metric :: "kind \<Rightarrow> string \<Rightarrow> MetricsRegistry \<Rightarrow> nat \<times> MetricsRegistry" where
  "register_metric k n r = (length (metrics r), push_back (make_shared k n) r)"

text \<open>The first loop of \<^verbatim>\<open>flush_locked\<close>, from position \<open>i\<close> on.\<close>

fun render_from :: "nat \<Rightarrow> metric list \<Rightarrow> string \<times> call list \<Rightarrow> string \<times> call list" where
  "render_from i [] acc = acc"
| "render_from i (m # ms) (oss, cs) =
     render_from (Suc i) ms
       (oss @ [CHR '' '', CHR 0x22] @ name m @ [CHR 0x22, CHR '' ''] @ value_string m,
        cs @ [Render i])"

text \<open>The second loop, from position \<open>i\<close> on.\<close>

fun reset_from :: "nat \<Rightarrow> metric list \<Rightarrow> call list \<Rightarrow> metric list \<times> call list" where
  "reset_from i [] cs = ([], cs)"
| "reset_from i (m # ms) cs =
     (case reset_from (Suc i) ms (cs @ [Reset i]) of (ms', cs') \<Rightarrow> (reset m # ms', cs'))"

definition flush_locked :: "(int \<Rightarrow> tm) \<Rightarrow> int \<Rightarrow> shared \<Rightarrow> shared" where
  "flush_locked localtime now s =
     (case render_from 0 (metrics (registry s)) (timestamp localtime now, calls s) of
        (oss, cs1) \<Rightarrow>
          (case ofstream_app (files s) (filename (registry s)) of
             (file, fs1) \<Rightarrow>
               (case reset_from 0 (metrics (registry s)) (cs1 @ [Write (oss @ [CHR 0x0A])]) of
                  (ms', cs2) \<Rightarrow>
                    s\<lparr>registry := (registry s)\<lparr>metrics := ms'\<rparr>,
                      files := ofstream_put file (oss @ [CHR 0x0A]) fs1,
                      calls := cs2\<rparr>)))"

text \<open>
  \<^verbatim>\<open>flush_now\<close> run on its own: the lock is free, and the cycle runs under it. It
  returns nothing.
\<close>

definition flush_now :: "(int \<Rightarrow> tm) \<Rightarrow> int \<Rightarrow> shared \<Rightarrow> shared" where
  "flush_now localtime now s = flush_locked localtime now s"

section \<open>The record, in the words of the sink contract\<close>

text \<open>
  The specification words the record as a timestamp and an ordered list of (name,
  rendered value) pairs, printed as one line. These definitions follow those words;
  the code builds the line directly.
\<close>

definition snapshot :: "metric list \<Rightarrow> (string \<times> string) list" where
  "snapshot ms = map (\<lambda>m. (name m, value_string m)) ms"

definition field :: "string \<times> string \<Rightarrow> string" where
  "field e = [CHR '' '', CHR 0x22] @ fst e @ [CHR 0x22, CHR '' ''] @ snd e"

definition format_record :: "string \<Rightarrow> (string \<times> string) list \<Rightarrow> string" where
  "format_record ts es = ts @ concat (map field es) @ [CHR 0x0A]"



section \<open>The shape of a timestamp\<close>

definition is_digit :: "char \<Rightarrow> bool" where
  "is_digit c = (c \<in> set ''0123456789'')"

text \<open>
  A string matches a pattern when it has a decimal digit wherever the pattern has the
  letter \<open>d\<close> and the pattern's own character everywhere else.
\<close>

fun matches :: "string \<Rightarrow> string \<Rightarrow> bool" where
  "matches [] [] = True"
| "matches (p # ps) (c # cs) = ((if p = CHR ''d'' then is_digit c else c = p) \<and> matches ps cs)"
| "matches _ _ = False"

text \<open>
  The ranges of the fields of a \<^verbatim>\<open>struct tm\<close> that \<^verbatim>\<open>localtime\<close> fills in, for a year of
  four digits.
\<close>

definition valid_tm :: "tm \<Rightarrow> bool" where
  "valid_tm t =
     (0 \<le> tm_sec t \<and> tm_sec t \<le> 60 \<and> 0 \<le> tm_min t \<and> tm_min t \<le> 59 \<and>
      0 \<le> tm_hour t \<and> tm_hour t \<le> 23 \<and> 1 \<le> tm_mday t \<and> tm_mday t \<le> 31 \<and>
      0 \<le> tm_mon t \<and> tm_mon t \<le> 11 \<and> 1000 \<le> 1900 + tm_year t \<and> 1900 + tm_year t \<le> 9999)"

section \<open>Means without rounding, and the shape of a rendered mean\<close>

text \<open>
  The running sum of the samples \<open>vs\<close>, started at \<open>acc\<close>, stays exact: every sample
  is finite and every partial sum is a double.
\<close>

fun exact_sum :: "rat \<Rightarrow> double list \<Rightarrow> bool" where
  "exact_sum acc [] = True"
| "exact_sum acc (v # vs) =
     (case v of Finite q \<Rightarrow> is_double (Finite (acc + q)) \<and> exact_sum (acc + q) vs
              | _ \<Rightarrow> False)"

definition is_finite :: "double \<Rightarrow> bool" where
  "is_finite d = (d \<noteq> NaN \<and> \<not> is_inf d)"

text \<open>A string that ends in a point and two decimal digits, with no point before.\<close>

definition two_decimals :: "string \<Rightarrow> bool" where
  "two_decimals s =
     (4 \<le> length s \<and> CHR ''.'' \<notin> set (take (length s - 3) s) \<and>
      matches ''.dd'' (drop (length s - 3) s))"

section \<open>An example run\<close>

text \<open>
  The end-to-end example of the specification: a counter \<open>C\<close> after \<^verbatim>\<open>increment(5)\<close> and
  an average \<open>A\<close> after \<^verbatim>\<open>add(2.0)\<close> and \<^verbatim>\<open>add(4.0)\<close>, flushed at 13:05:07.042 UTC on
  30 October 2026 by a process whose time zone is UTC, into a file that holds one
  line already.
\<close>

definition example_now :: int where
  "example_now = 1793365507042000000"

definition example_localtime :: "int \<Rightarrow> tm" where
  "example_localtime t =
     (if t = 1793365507
      then \<lparr>tm_sec = 7, tm_min = 5, tm_hour = 13, tm_mday = 30, tm_mon = 9, tm_year = 126\<rparr>
      else \<lparr>tm_sec = 0, tm_min = 0, tm_hour = 0, tm_mday = 1, tm_mon = 0, tm_year = 70\<rparr>)"

definition example_metrics :: "metric list" where
  "example_metrics =
     [Counter (increment (CounterMetric ''C'') 5),
      Average (add (add (AverageMetric ''A'') (Finite 2)) (Finite 4))]"

definition example_state :: "metric list \<Rightarrow> node \<Rightarrow> shared" where
  "example_state ms f =
     \<lparr>registry = \<lparr>filename = ''metrics.log'', flush_period_ms = 1000, metrics = ms,
                   stop_flag = False\<rparr>,
      files = (\<lambda>p. if p = ''metrics.log'' then f else Missing),
      calls = []\<rparr>"

section \<open>The threads of a registry\<close>

text \<open>
  The threads that use one registry: the worker that the constructor starts (it runs
  \<^verbatim>\<open>worker_func\<close>), the owner, which runs the destructor, and any number of clients,
  which call \<^verbatim>\<open>flush_now\<close> and \<^verbatim>\<open>register_metric\<close> and update the metrics they hold.
  A state of the system has the shared data, the owner of \<^verbatim>\<open>mutex_\<close> and a program
  counter for every thread; a step is one thread's next action, and a run is any
  interleaving of steps.
\<close>

datatype thread = Worker | Owner | Client nat

text \<open>
  The program counter of \<^verbatim>\<open>worker_func\<close>:
  \<^item> \<open>W_lock\<close>: started, at \<^verbatim>\<open>std::unique_lock<std::mutex> lock(mutex_)\<close>;
  \<^item> \<open>W_while\<close>: at the test of \<^verbatim>\<open>while (!stop_flag_)\<close>;
  \<^item> \<open>W_wait\<close>: at the call of \<^verbatim>\<open>cond_.wait_for\<close>;
  \<^item> \<open>W_blocked\<close>: inside \<^verbatim>\<open>wait_for\<close>, the lock released, blocked;
  \<^item> \<open>W_relock\<close>: inside \<^verbatim>\<open>wait_for\<close>, unblocked, taking the lock again;
  \<^item> \<open>W_if\<close>: at \<^verbatim>\<open>if (stop_flag_) break\<close>;
  \<^item> \<open>W_flush\<close>: inside \<^verbatim>\<open>flush_locked()\<close>;
  \<^item> \<open>W_return\<close>: after the loop, about to return and release the lock;
  \<^item> \<open>W_done\<close>: returned, the thread has finished.
\<close>

datatype worker_pc =
  W_lock | W_while | W_wait | W_blocked | W_relock | W_if | W_flush | W_return | W_done

text \<open>
  The program counter of the destructor: not begun (\<open>D_alive\<close>), at the lock guard,
  at \<^verbatim>\<open>stop_flag_ = true\<close>, at \<^verbatim>\<open>cond_.notify_one()\<close>, at the end of the guard's block,
  inside \<^verbatim>\<open>worker_.join()\<close>, and returned.
\<close>

datatype owner_pc = D_alive | D_lock | D_set | D_notify | D_unlock | D_join | D_done

text \<open>
  The program counter of a client: between calls (\<open>C_idle\<close>); in \<^verbatim>\<open>flush_now\<close> at the
  lock guard, inside \<^verbatim>\<open>flush_locked()\<close>, at the end of the guard; in
  \<^verbatim>\<open>register_metric\<close>, with the metric it has made, at the lock guard, at
  \<^verbatim>\<open>push_back\<close>, at the end of the guard.
\<close>

datatype client_pc =
  C_idle | C_flush_lock | C_flush | C_flush_unlock
  | C_register_lock metric | C_register metric | C_register_unlock

datatype action =
  Lock | Unlock | While_stop bool | If_stop bool | Wait | Wake | Flush int
  | Destroy | Set_stop | Notify | Join
  | Call_flush_now | Call_register_metric kind string | Push_back
  | Increment nat "32 word" | Add nat double

record system =
  data :: shared
  mutex :: "thread option"
  worker :: worker_pc
  owner :: owner_pc
  client :: "nat \<Rightarrow> client_pc"

text \<open>The state that the constructor leaves: no metric, the worker started.\<close>

definition MetricsRegistry :: "string \<Rightarrow> 32 word \<Rightarrow> filesystem \<Rightarrow> system" where
  "MetricsRegistry fname period fs =
     \<lparr>data = \<lparr>registry = \<lparr>filename = fname, flush_period_ms = period, metrics = [],
                              stop_flag = False\<rparr>,
                 files = fs, calls = []\<rparr>,
      mutex = None, worker = W_lock, owner = D_alive, client = (\<lambda>i. C_idle)\<rparr>"

definition stopped :: "system \<Rightarrow> bool" where
  "stopped s = stop_flag (registry (data s))"

definition set_stop_flag :: "shared \<Rightarrow> shared" where
  "set_stop_flag d = d\<lparr>registry := (registry d)\<lparr>stop_flag := True\<rparr>\<rparr>"

text \<open>
  \<^verbatim>\<open>notify_one\<close> unblocks the worker when it is blocked in \<^verbatim>\<open>wait_for\<close>, and does
  nothing otherwise.
\<close>

definition notify_one :: "worker_pc \<Rightarrow> worker_pc" where
  "notify_one w = (if w = W_blocked then W_relock else w)"

text \<open>The updates of a metric through the handle \<open>h\<close> that a client holds.\<close>

definition increment_at :: "nat \<Rightarrow> 32 word \<Rightarrow> shared \<Rightarrow> shared" where
  "increment_at h v d =
     (case metrics (registry d) ! h of
        Counter c \<Rightarrow> d\<lparr>registry := (registry d)\<lparr>metrics :=
                       (metrics (registry d))[h := Counter (increment c v)]\<rparr>\<rparr>
      | Average a \<Rightarrow> d)"

definition add_at :: "nat \<Rightarrow> double \<Rightarrow> shared \<Rightarrow> shared" where
  "add_at h v d =
     (case metrics (registry d) ! h of
        Average a \<Rightarrow> d\<lparr>registry := (registry d)\<lparr>metrics :=
                       (metrics (registry d))[h := Average (add a v)]\<rparr>\<rparr>
      | Counter c \<Rightarrow> d)"

text \<open>
  One step of one thread. A lock guard takes the mutex only when it is free. The
  worker blocked in \<^verbatim>\<open>wait_for\<close> may wake at any time (the period has passed, or the
  wake-up is spurious); \<^verbatim>\<open>notify_one\<close> wakes it as well. A thread is inside
  \<^verbatim>\<open>flush_locked\<close> from the step that calls it to the step \<open>Flush now\<close> that completes it,
  where the cycle takes effect, with \<open>now\<close> the reading of the clock. A client begins
  a call only while the registry is alive: the owner has not begun to destroy it.
  \<^verbatim>\<open>join\<close> returns once the worker has finished. The updates of the metrics need
  no lock and are steps of their own. The cycle itself is one step: an update runs
  before it or after it, never inside it. In the code \<^verbatim>\<open>increment\<close> and \<^verbatim>\<open>add\<close> do not
  take the mutex, so an update can land between the rendering of its metric and the
  reset, and is then lost (the record says 5, the counter goes from 6 to 0); that run
  is no run of this relation. What is proved below of the relation concerns the
  program counters, the mutex and the sink, which no update touches.
\<close>

inductive step :: "(int \<Rightarrow> tm) \<Rightarrow> system \<Rightarrow> thread \<times> action \<Rightarrow> system \<Rightarrow> bool"
  for localtime :: "int \<Rightarrow> tm"
where
  w_lock:
    "worker s = W_lock \<Longrightarrow> mutex s = None \<Longrightarrow>
     step localtime s (Worker, Lock) (s\<lparr>mutex := Some Worker, worker := W_while\<rparr>)"
| w_while_run:
    "worker s = W_while \<Longrightarrow> \<not> stopped s \<Longrightarrow>
     step localtime s (Worker, While_stop False) (s\<lparr>worker := W_wait\<rparr>)"
| w_while_stop:
    "worker s = W_while \<Longrightarrow> stopped s \<Longrightarrow>
     step localtime s (Worker, While_stop True) (s\<lparr>worker := W_return\<rparr>)"
| w_wait:
    "worker s = W_wait \<Longrightarrow>
     step localtime s (Worker, Wait) (s\<lparr>mutex := None, worker := W_blocked\<rparr>)"
| w_wake:
    "worker s = W_blocked \<Longrightarrow>
     step localtime s (Worker, Wake) (s\<lparr>worker := W_relock\<rparr>)"
| w_relock:
    "worker s = W_relock \<Longrightarrow> mutex s = None \<Longrightarrow>
     step localtime s (Worker, Lock) (s\<lparr>mutex := Some Worker, worker := W_if\<rparr>)"
| w_if_stop:
    "worker s = W_if \<Longrightarrow> stopped s \<Longrightarrow>
     step localtime s (Worker, If_stop True) (s\<lparr>worker := W_return\<rparr>)"
| w_if_run:
    "worker s = W_if \<Longrightarrow> \<not> stopped s \<Longrightarrow>
     step localtime s (Worker, If_stop False) (s\<lparr>worker := W_flush\<rparr>)"
| w_flush:
    "worker s = W_flush \<Longrightarrow>
     step localtime s (Worker, Flush now)
       (s\<lparr>data := flush_locked localtime now (data s), worker := W_while\<rparr>)"
| w_return:
    "worker s = W_return \<Longrightarrow>
     step localtime s (Worker, Unlock) (s\<lparr>mutex := None, worker := W_done\<rparr>)"
| d_destroy:
    "owner s = D_alive \<Longrightarrow>
     step localtime s (Owner, Destroy) (s\<lparr>owner := D_lock\<rparr>)"
| d_lock:
    "owner s = D_lock \<Longrightarrow> mutex s = None \<Longrightarrow>
     step localtime s (Owner, Lock) (s\<lparr>mutex := Some Owner, owner := D_set\<rparr>)"
| d_set:
    "owner s = D_set \<Longrightarrow>
     step localtime s (Owner, Set_stop) (s\<lparr>data := set_stop_flag (data s), owner := D_notify\<rparr>)"
| d_notify:
    "owner s = D_notify \<Longrightarrow>
     step localtime s (Owner, Notify) (s\<lparr>worker := notify_one (worker s), owner := D_unlock\<rparr>)"
| d_unlock:
    "owner s = D_unlock \<Longrightarrow>
     step localtime s (Owner, Unlock) (s\<lparr>mutex := None, owner := D_join\<rparr>)"
| d_join:
    "owner s = D_join \<Longrightarrow> worker s = W_done \<Longrightarrow>
     step localtime s (Owner, Join) (s\<lparr>owner := D_done\<rparr>)"
| c_flush_now:
    "client s i = C_idle \<Longrightarrow> owner s = D_alive \<Longrightarrow>
     step localtime s (Client i, Call_flush_now) (s\<lparr>client := (client s)(i := C_flush_lock)\<rparr>)"
| c_flush_lock:
    "client s i = C_flush_lock \<Longrightarrow> mutex s = None \<Longrightarrow>
     step localtime s (Client i, Lock)
       (s\<lparr>mutex := Some (Client i), client := (client s)(i := C_flush)\<rparr>)"
| c_flush:
    "client s i = C_flush \<Longrightarrow>
     step localtime s (Client i, Flush now)
       (s\<lparr>data := flush_locked localtime now (data s),
          client := (client s)(i := C_flush_unlock)\<rparr>)"
| c_flush_unlock:
    "client s i = C_flush_unlock \<Longrightarrow>
     step localtime s (Client i, Unlock) (s\<lparr>mutex := None, client := (client s)(i := C_idle)\<rparr>)"
| c_register_metric:
    "client s i = C_idle \<Longrightarrow> owner s = D_alive \<Longrightarrow>
     step localtime s (Client i, Call_register_metric k n)
       (s\<lparr>client := (client s)(i := C_register_lock (make_shared k n))\<rparr>)"
| c_register_lock:
    "client s i = C_register_lock m \<Longrightarrow> mutex s = None \<Longrightarrow>
     step localtime s (Client i, Lock)
       (s\<lparr>mutex := Some (Client i), client := (client s)(i := C_register m)\<rparr>)"
| c_register:
    "client s i = C_register m \<Longrightarrow>
     step localtime s (Client i, Push_back)
       (s\<lparr>data := (data s)\<lparr>registry := push_back m (registry (data s))\<rparr>,
          client := (client s)(i := C_register_unlock)\<rparr>)"
| c_register_unlock:
    "client s i = C_register_unlock \<Longrightarrow>
     step localtime s (Client i, Unlock) (s\<lparr>mutex := None, client := (client s)(i := C_idle)\<rparr>)"
| c_increment:
    "client s i = C_idle \<Longrightarrow> h < length (metrics (registry (data s))) \<Longrightarrow>
     step localtime s (Client i, Increment h v) (s\<lparr>data := increment_at h v (data s)\<rparr>)"
| c_add:
    "client s i = C_idle \<Longrightarrow> h < length (metrics (registry (data s))) \<Longrightarrow>
     step localtime s (Client i, Add h v) (s\<lparr>data := add_at h v (data s)\<rparr>)"

text \<open>The states that a registry made by the constructor can reach.\<close>

inductive reachable :: "(int \<Rightarrow> tm) \<Rightarrow> system \<Rightarrow> bool"
  for localtime :: "int \<Rightarrow> tm"
where
  reach_init: "reachable localtime (MetricsRegistry fname period fs)"
| reach_step: "reachable localtime s \<Longrightarrow> step localtime s e s' \<Longrightarrow> reachable localtime s'"

text \<open>The program counters at which a thread holds the mutex.\<close>

fun worker_locked :: "worker_pc \<Rightarrow> bool" where
  "worker_locked W_while = True"
| "worker_locked W_wait = True"
| "worker_locked W_if = True"
| "worker_locked W_flush = True"
| "worker_locked W_return = True"
| "worker_locked _ = False"

fun owner_locked :: "owner_pc \<Rightarrow> bool" where
  "owner_locked D_set = True"
| "owner_locked D_notify = True"
| "owner_locked D_unlock = True"
| "owner_locked _ = False"

fun client_locked :: "client_pc \<Rightarrow> bool" where
  "client_locked C_flush = True"
| "client_locked C_flush_unlock = True"
| "client_locked (C_register m) = True"
| "client_locked C_register_unlock = True"
| "client_locked _ = False"

text \<open>The destructor has signalled: it is past \<^verbatim>\<open>notify_one\<close>.\<close>

fun signalled :: "owner_pc \<Rightarrow> bool" where
  "signalled D_unlock = True"
| "signalled D_join = True"
| "signalled D_done = True"
| "signalled _ = False"

text \<open>
  The number of steps the worker has left once the stop is signalled: the lock, the
  test of the flag, the release.
\<close>

fun steps_left :: "worker_pc \<Rightarrow> nat" where
  "steps_left W_done = 0"
| "steps_left W_return = 1"
| "steps_left W_while = 2"
| "steps_left W_if = 2"
| "steps_left W_lock = 3"
| "steps_left W_relock = 3"
| "steps_left _ = 4"

text \<open>
  What holds in every reachable state: a thread is at a program counter under the
  lock exactly when it owns the mutex; the flag is set exactly from the destructor's
  assignment on; once the destructor has signalled, the worker is not blocked in
  \<^verbatim>\<open>wait_for\<close>; once the flag is set, the worker is neither about to wait nor inside
  a flush cycle; the destructor has returned only if the worker has finished.
\<close>

definition invariant :: "system \<Rightarrow> bool" where
  "invariant s =
     ((worker_locked (worker s) \<longleftrightarrow> mutex s = Some Worker) \<and>
      (owner_locked (owner s) \<longleftrightarrow> mutex s = Some Owner) \<and>
      (\<forall>i. client_locked (client s i) \<longleftrightarrow> mutex s = Some (Client i)) \<and>
      (stopped s \<longleftrightarrow> owner s = D_notify \<or> signalled (owner s)) \<and>
      (signalled (owner s) \<longrightarrow> worker s \<noteq> W_blocked) \<and>
      (stopped s \<longrightarrow> worker s \<noteq> W_wait \<and> worker s \<noteq> W_flush) \<and>
      (owner s = D_done \<longrightarrow> worker s = W_done))"

text \<open>
  States of an example run: a registry on \<open>metrics.log\<close> with no metric, the threads
  at the given program counters (of the clients, only client 0 is ever active).
\<close>

definition example_system ::
  "worker_pc \<Rightarrow> owner_pc \<Rightarrow> client_pc \<Rightarrow> bool \<Rightarrow> thread option \<Rightarrow> system" where
  "example_system w d c stop m =
     \<lparr>data = \<lparr>registry = \<lparr>filename = ''metrics.log'', flush_period_ms = 1000, metrics = [],
                            stop_flag = stop\<rparr>,
               files = (\<lambda>p. Missing), calls = []\<rparr>,
      mutex = m, worker = w, owner = d, client = (\<lambda>i. C_idle)(0 := c)\<rparr>"

section \<open>Decimal digits\<close>

declare dec_nat.simps [simp del]

lemma is_digit_digit_char: "is_digit (digit_char n)"
proof -
  have "n mod 10 = 0 \<or> n mod 10 = 1 \<or> n mod 10 = 2 \<or> n mod 10 = 3 \<or> n mod 10 = 4 \<or>
        n mod 10 = 5 \<or> n mod 10 = 6 \<or> n mod 10 = 7 \<or> n mod 10 = 8 \<or> n mod 10 = 9"
    by presburger
  then show ?thesis
    unfolding is_digit_def digit_char_def by (elim disjE) simp_all
qed

lemma dec_nat_1: "n < 10 \<Longrightarrow> dec_nat n = [digit_char n]"
  by (simp add: dec_nat.simps)

lemma dec_nat_2: "10 \<le> n \<Longrightarrow> n < 100 \<Longrightarrow> dec_nat n = [digit_char (n div 10), digit_char n]"
  by (subst dec_nat.simps) (simp add: dec_nat_1)

lemma dec_nat_3:
  "100 \<le> n \<Longrightarrow> n < 1000 \<Longrightarrow> dec_nat n = [digit_char (n div 100), digit_char (n div 10), digit_char n]"
  by (subst dec_nat.simps) (simp add: dec_nat_2 div_mult2_eq [symmetric])

lemma dec_nat_4:
  "1000 \<le> n \<Longrightarrow> n < 10000 \<Longrightarrow>
     dec_nat n = [digit_char (n div 1000), digit_char (n div 100), digit_char (n div 10), digit_char n]"
  by (subst dec_nat.simps) (simp add: dec_nat_3 div_mult2_eq [symmetric])

lemma digit_char_0: "digit_char 0 = CHR ''0''"
  by (simp add: digit_char_def)

lemma pad2: 
  "0 \<le> i \<Longrightarrow> i < 100 \<Longrightarrow>
     pad_left 2 CHR ''0'' (to_string i) = [digit_char (nat i div 10), digit_char (nat i)]"
  by (cases "nat i < 10")
     (simp_all add: pad_left_def to_string_def dec_nat_1 dec_nat_2 digit_char_0)

lemma pad3: 
  "0 \<le> i \<Longrightarrow> i < 1000 \<Longrightarrow>
     pad_left 3 CHR ''0'' (to_string i) =
       [digit_char (nat i div 100), digit_char (nat i div 10), digit_char (nat i)]"
proof -
  assume a: "0 \<le> i" "i < 1000"
  consider "nat i < 10" | "10 \<le> nat i" "nat i < 100" | "100 \<le> nat i" "nat i < 1000"
    using a by linarith
  then show ?thesis
  proof cases
    case 1
    then show ?thesis using a
      by (simp add: pad_left_def to_string_def dec_nat_1 digit_char_0 numeral_3_eq_3)
  next
    case 2
    then show ?thesis using a
      by (simp add: pad_left_def to_string_def dec_nat_2 digit_char_0)
  next
    case 3
    then show ?thesis using a
      by (simp add: pad_left_def to_string_def dec_nat_3)
  qed
qed

lemma year4:
  "1000 \<le> i \<Longrightarrow> i \<le> 9999 \<Longrightarrow>
     to_string i = [digit_char (nat i div 1000), digit_char (nat i div 100),
                    digit_char (nat i div 10), digit_char (nat i)]"
  by (simp add: to_string_def dec_nat_4)

section \<open>The timestamp is well formed\<close>

lemma quotient_nonneg: "0 \<le> x \<Longrightarrow> 0 < y \<Longrightarrow> quotient x y = x div y"
  by (simp add: quotient_def)

lemma remainder_nonneg: "0 \<le> x \<Longrightarrow> 0 < y \<Longrightarrow> remainder x y = x mod y"
  by (simp add: remainder_def quotient_nonneg minus_mult_div_eq_mod)

lemma ms_count_nonneg: "0 \<le> now \<Longrightarrow> ms_count now = (now div 1000000) mod 1000"
  by (simp add: ms_count_def quotient_nonneg remainder_nonneg pos_imp_zdiv_nonneg_iff)

lemma timestamp_digits:
  assumes "0 \<le> now" and "valid_tm t" and "localtime (to_time_t now) = t"
  shows "timestamp localtime now =
     [digit_char (nat (1900 + tm_year t) div 1000), digit_char (nat (1900 + tm_year t) div 100),
      digit_char (nat (1900 + tm_year t) div 10), digit_char (nat (1900 + tm_year t)), CHR ''-'',
      digit_char (nat (tm_mon t + 1) div 10), digit_char (nat (tm_mon t + 1)), CHR ''-'',
      digit_char (nat (tm_mday t) div 10), digit_char (nat (tm_mday t)), CHR '' '',
      digit_char (nat (tm_hour t) div 10), digit_char (nat (tm_hour t)), CHR '':'',
      digit_char (nat (tm_min t) div 10), digit_char (nat (tm_min t)), CHR '':'',
      digit_char (nat (tm_sec t) div 10), digit_char (nat (tm_sec t)), CHR ''.'',
      digit_char (nat (now div 1000000 mod 1000) div 100),
      digit_char (nat (now div 1000000 mod 1000) div 10),
      digit_char (nat (now div 1000000 mod 1000))]"
proof -
  have y: "to_string (1900 + tm_year t) =
      [digit_char (nat (1900 + tm_year t) div 1000), digit_char (nat (1900 + tm_year t) div 100),
       digit_char (nat (1900 + tm_year t) div 10), digit_char (nat (1900 + tm_year t))]"
    using assms(2) by (intro year4) (simp_all add: valid_tm_def)
  have mo: "pad_left 2 CHR ''0'' (to_string (tm_mon t + 1)) =
      [digit_char (nat (tm_mon t + 1) div 10), digit_char (nat (tm_mon t + 1))]"
    using assms(2) by (intro pad2) (simp_all add: valid_tm_def)
  have d: "pad_left 2 CHR ''0'' (to_string (tm_mday t)) =
      [digit_char (nat (tm_mday t) div 10), digit_char (nat (tm_mday t))]"
    using assms(2) by (intro pad2) (simp_all add: valid_tm_def)
  have h: "pad_left 2 CHR ''0'' (to_string (tm_hour t)) =
      [digit_char (nat (tm_hour t) div 10), digit_char (nat (tm_hour t))]"
    using assms(2) by (intro pad2) (simp_all add: valid_tm_def)
  have mi: "pad_left 2 CHR ''0'' (to_string (tm_min t)) =
      [digit_char (nat (tm_min t) div 10), digit_char (nat (tm_min t))]"
    using assms(2) by (intro pad2) (simp_all add: valid_tm_def)
  have se: "pad_left 2 CHR ''0'' (to_string (tm_sec t)) =
      [digit_char (nat (tm_sec t) div 10), digit_char (nat (tm_sec t))]"
    using assms(2) by (intro pad2) (simp_all add: valid_tm_def)
  have ms: "pad_left 3 CHR ''0'' (to_string (ms_count now)) =
      [digit_char (nat (now div 1000000 mod 1000) div 100),
       digit_char (nat (now div 1000000 mod 1000) div 10),
       digit_char (nat (now div 1000000 mod 1000))]"
    using assms(1) by (simp only: ms_count_nonneg) (intro pad3, simp_all)
  show ?thesis
    unfolding timestamp_def put_time_def assms(3) y mo d h mi se ms by simp
qed

lemma timestamp_shape:
  assumes "0 \<le> now" and "valid_tm (localtime (to_time_t now))"
  shows "matches ''dddd-dd-dd dd:dd:dd.ddd'' (timestamp localtime now)"
  using timestamp_digits [of now "localtime (to_time_t now)" localtime] assms
  by (simp add: is_digit_digit_char)

section \<open>The flush cycle\<close>

lemma render_from_eq:
  "render_from i ms (oss, cs) =
     (oss @ concat (map field (snapshot ms)), cs @ map Render [i..<i + length ms])"
proof (induction ms arbitrary: i oss cs)
  case Nil
  show ?case by (simp add: snapshot_def)
next
  case (Cons m ms)
  have "[i..<i + length (m # ms)] = i # [Suc i..<Suc i + length ms]"
    by (simp add: upt_rec)
  then show ?case
    using Cons.IH by (simp add: snapshot_def field_def)
qed

lemma reset_from_eq:
  "reset_from i ms cs = (map reset ms, cs @ map Reset [i..<i + length ms])"
proof (induction ms arbitrary: i cs)
  case Nil
  show ?case by simp
next
  case (Cons m ms)
  have "[i..<i + length (m # ms)] = i # [Suc i..<Suc i + length ms]"
    by (simp add: upt_rec)
  then show ?case
    using Cons.IH by simp
qed


lemma flush_locked_registry:
  "registry (flush_locked lt now s) =
     (registry s)\<lparr>metrics := map reset (metrics (registry s))\<rparr>"
  by (simp add: flush_locked_def render_from_eq reset_from_eq split: prod.splits)

lemma flush_locked_calls:
  "calls (flush_locked lt now s) =
     calls s @ map Render [0..<length (metrics (registry s))] @
     [Write (format_record (timestamp lt now) (snapshot (metrics (registry s))))] @
     map Reset [0..<length (metrics (registry s))]"
  by (simp add: flush_locked_def render_from_eq reset_from_eq format_record_def
      split: prod.splits)

lemma flush_locked_files:
  "files (flush_locked lt now s) =
     ofstream_put (fst (ofstream_app (files s) (filename (registry s))))
       (format_record (timestamp lt now) (snapshot (metrics (registry s))))
       (snd (ofstream_app (files s) (filename (registry s))))"
  by (simp add: flush_locked_def render_from_eq reset_from_eq format_record_def
      split: prod.splits)

lemma append_regular:
  "fs p = Regular old \<Longrightarrow>
     ofstream_put (fst (ofstream_app fs p)) r (snd (ofstream_app fs p)) = fs(p := Regular (old @ r))"
  by (simp add: ofstream_app_def ofstream_put_def)

lemma append_missing:
  "fs p = Missing \<Longrightarrow>
     ofstream_put (fst (ofstream_app fs p)) r (snd (ofstream_app fs p)) = fs(p := Regular r)"
  by (simp add: ofstream_app_def ofstream_put_def)

lemma append_unwritable:
  "fs p = Unwritable \<Longrightarrow>
     ofstream_put (fst (ofstream_app fs p)) r (snd (ofstream_app fs p)) = fs"
  by (simp add: ofstream_app_def ofstream_put_def)

lemma append_other:
  "q \<noteq> p \<Longrightarrow> ofstream_put (fst (ofstream_app fs p)) r (snd (ofstream_app fs p)) q = fs q"
  by (cases "fs p") (simp_all add: ofstream_app_def ofstream_put_def)


section \<open>A record is one line\<close>

lemma newline_not_digit: "\<not> is_digit (CHR 0x0A)"
  by (simp add: is_digit_def)

lemma matches_no_newline:
  "matches p s \<Longrightarrow> CHR 0x0A \<notin> set p \<Longrightarrow> CHR 0x0A \<notin> set s"
  by (induction p s rule: matches.induct) (auto simp add: newline_not_digit split: if_splits)

lemma digit_char_not_newline: "digit_char n \<noteq> CHR 0x0A" "CHR 0x0A \<noteq> digit_char n"
  using is_digit_digit_char [of n] newline_not_digit by auto

lemma dec_nat_no_newline: "CHR 0x0A \<notin> set (dec_nat n)"
proof (induction n rule: dec_nat.induct)
  case (1 n)
  show ?case
  proof (cases "n < 10")
    case True
    then show ?thesis by (simp add: dec_nat_1 digit_char_not_newline)
  next
    case False
    then have "dec_nat n = dec_nat (n div 10) @ [digit_char n]"
      by (subst dec_nat.simps) simp
    then show ?thesis using 1 False by (simp add: digit_char_not_newline)
  qed
qed

lemma to_string_no_newline: "CHR 0x0A \<notin> set (to_string i)"
  by (simp add: to_string_def dec_nat_no_newline)

lemma fixed2_no_newline: "CHR 0x0A \<notin> set (fixed2 d)"
  by (simp add: fixed2_def Let_def dec_nat_no_newline digit_char_not_newline)

lemma value_string_no_newline: "CHR 0x0A \<notin> set (value_string m)"
  by (cases m)
     (simp_all add: counter_value_string_def average_value_string_def
        to_string_no_newline fixed2_no_newline)

lemma fields_no_newline:
  "\<forall>m\<in>set ms. CHR 0x0A \<notin> set (name m) \<Longrightarrow>
     CHR 0x0A \<notin> set (concat (map field (snapshot ms)))"
  by (induction ms) (auto simp add: snapshot_def field_def value_string_no_newline)

lemma record_one_line:
  assumes "CHR 0x0A \<notin> set ts" and "\<forall>m\<in>set ms. CHR 0x0A \<notin> set (name m)"
  shows "count_list (format_record ts (snapshot ms)) (CHR 0x0A) = 1"
  using assms(1) fields_no_newline [OF assms(2)]
  by (simp add: format_record_def)

section \<open>CounterMetric: sums and wrap-around\<close>

lemma counter_value_foldl:
  "counter_value (foldl increment c ds) = counter_value c + sum_list ds"
  by (induction ds arbitrary: c) (simp_all add: increment_def add.assoc)

lemma signed_take_bit_add_right:
  "signed_take_bit n (k + signed_take_bit n l) = signed_take_bit n (k + (l :: int))"
  using signed_take_bit_add [of n k "signed_take_bit n l"] signed_take_bit_add [of n k l]
  by simp

lemma sint_sum_list:
  "sint (sum_list ds :: 32 word) = signed_take_bit 31 (\<Sum>d\<leftarrow>ds. sint d)"
  by (induction ds) (simp_all add: sint_word_add signed_take_bit_add_right)

lemma get_foldl_fresh:
  "get (foldl increment (CounterMetric n) ds) = signed_take_bit 31 (\<Sum>d\<leftarrow>ds. sint d)"
  by (simp add: get_def counter_value_foldl CounterMetric_def sint_sum_list)

lemma sum_list_sint_mset:
  "mset ds' = mset ds \<Longrightarrow> (\<Sum>d\<leftarrow>ds'. sint d) = (\<Sum>d\<leftarrow>(ds :: 32 word list). sint d)"
  by (metis mset_map sum_mset_sum_list)

lemma get_replicate_one:
  "N < 2 ^ 31 \<Longrightarrow> get (foldl increment (CounterMetric n) (replicate N 1)) = int N"
proof -
  assume "N < 2 ^ 31"
  then have "int N < 2 ^ 31"
    by (metis of_nat_less_iff of_nat_numeral of_nat_power)
  moreover have "- (2 ^ 31) \<le> int N"
    by (rule order_trans [of _ 0]) simp_all
  ultimately have "signed_take_bit 31 (int N) = int N"
    by (simp only: signed_take_bit_int_eq_self)
  then show ?thesis
    by (simp add: get_foldl_fresh sum_list_replicate)
qed

text \<open>
  C5, as the code has it. The calls \<open>ds'\<close> are the deltas \<open>ds\<close> in whatever order the
  atomic additions took place. On a fresh counter \<open>get\<close> is the sum of the deltas
  reduced to the 32-bit two's complement range: no increment is lost, and the deltas
  may be negative. It is the sum itself when the sum is in that range; \<open>N\<close> calls of
  \<^verbatim>\<open>increment(1)\<close> give \<open>N\<close> for \<open>N\<close> below \<open>2 ^ 31\<close>.
\<close>

theorem counter_get_sum:
  "mset ds' = mset ds \<Longrightarrow>
     get (foldl increment (CounterMetric n) ds') = signed_take_bit 31 (\<Sum>d\<leftarrow>ds. sint d) \<and>
     (- (2 ^ 31) \<le> (\<Sum>d\<leftarrow>ds. sint d) \<and> (\<Sum>d\<leftarrow>ds. sint d) < 2 ^ 31 \<longrightarrow>
        get (foldl increment (CounterMetric n) ds') = (\<Sum>d\<leftarrow>ds. sint d)) \<and>
     (N < 2 ^ 31 \<longrightarrow> get (foldl increment (CounterMetric n) (replicate N 1)) = int N)"
proof (intro conjI impI)
  assume eq: "mset ds' = mset ds"
  show a: "get (foldl increment (CounterMetric n) ds') = signed_take_bit 31 (\<Sum>d\<leftarrow>ds. sint d)"
    by (simp only: get_foldl_fresh sum_list_sint_mset [OF eq])
  show "get (foldl increment (CounterMetric n) ds') = (\<Sum>d\<leftarrow>ds. sint d)"
    if "- (2 ^ 31) \<le> (\<Sum>d\<leftarrow>ds. sint d) \<and> (\<Sum>d\<leftarrow>ds. sint d) < 2 ^ 31"
    using that by (simp only: a signed_take_bit_int_eq_self)
  show "get (foldl increment (CounterMetric n) (replicate N 1)) = int N" if "N < 2 ^ 31"
    using that by (rule get_replicate_one)
qed

theorem counter_get_sum_witness:
  "mset [3, - 1, 5] = mset [5, 3, - 1 :: 32 word] \<and>
   get (foldl increment (CounterMetric ''C'') [3, - 1, 5]) = 7 \<and>
   get (foldl increment (CounterMetric ''C'') (replicate 4 1)) = 4"
proof -
  have m: "mset [3, - 1, 5] = mset [5, 3, - 1 :: 32 word]"
    by (simp add: add_mset_commute)
  have n: "(4 :: nat) < 2 ^ 31"
    by simp
  show ?thesis
    using counter_get_sum [OF m, of "''C''" 4] m n by simp
qed

text \<open>
  C5 as the claim words it, "get() equals the sum of the deltas", fails: after
  \<^verbatim>\<open>increment(2147483647)\<close> and \<^verbatim>\<open>increment(1)\<close> the sum is \<open>2147483648\<close> and \<open>get\<close> is
  \<open>-2147483648\<close>.
\<close>

theorem counter_get_sum_counterexample:
  "get (foldl increment (CounterMetric ''C'') [2147483647, 1]) \<noteq>
     (\<Sum>d\<leftarrow>[2147483647, 1 :: 32 word]. sint d)"
  by (simp add: get_def increment_def CounterMetric_def)

text \<open>
  The first half of C5 fails the same way: \<open>2 ^ 31\<close> calls of \<^verbatim>\<open>increment(1)\<close> leave
  \<open>get\<close> at \<open>- (2 ^ 31)\<close>.
\<close>

lemma counter_many_increments:
  "get (foldl increment (CounterMetric n) (replicate (2 ^ 31) 1)) = - (2 ^ 31)"
  by (simp add: get_foldl_fresh sum_list_replicate)

text \<open>
  C10. The accumulator is a 32-bit machine integer: \<open>increment\<close> adds modulo \<open>2 ^ 32\<close>
  (read as unsigned), that is with wrap-around in the signed reading. After
  \<^verbatim>\<open>increment(2147483647)\<close> and \<^verbatim>\<open>increment(1)\<close> on a fresh counter \<open>get\<close> returns the
  negative number \<open>-2147483648\<close>; the true sum is \<open>2147483648\<close>.
\<close>

theorem counter_wraps:
  "uint (counter_value (increment c v)) = (uint (counter_value c) + uint v) mod 2 ^ 32 \<and>
   get (increment c v) = signed_take_bit 31 (get c + sint v) \<and>
   get (foldl increment (CounterMetric n) [2147483647, 1]) = - 2147483648 \<and>
   (\<Sum>d\<leftarrow>[2147483647, 1 :: 32 word]. sint d) = 2147483648"
  by (simp add: get_def increment_def CounterMetric_def uint_word_ariths sint_word_add)

section \<open>Reset\<close>

text \<open>
  C7. After \<open>reset\<close> a counter's \<open>get\<close> is 0 and an average's \<open>get_average\<close> (the mean)
  is 0.0, whatever the state before.
\<close>

theorem reset_gives_zero:
  "get (counter_reset c) = 0 \<and> get_average (average_reset a) = Finite 0 \<and>
   reset (Counter c) = Counter (counter_reset c) \<and>
   reset (Average a) = Average (average_reset a)"
  by (simp add: get_def counter_reset_def get_average_def average_reset_def)

section \<open>AverageMetric: the mean\<close>

lemma average_count_foldl:
  "average_count (foldl add a vs) = average_count a + of_nat (length vs)"
  by (induction vs arbitrary: a) (simp_all add: add_def add.assoc)

lemma average_sum_foldl:
  "average_sum (foldl add a vs) = foldl dadd (average_sum a) vs"
  by (induction vs arbitrary: a) (simp_all add: add_def)

lemma sint_of_nat_small:
  assumes "n < 2 ^ 31"
  shows "sint (of_nat n :: 32 word) = int n"
proof -
  have "int n < 2 ^ 31"
    using assms by (metis of_nat_less_iff of_nat_numeral of_nat_power)
  moreover have "- (2 ^ 31) \<le> int n"
    by (rule order_trans [of _ 0]) simp_all
  ultimately have "signed_take_bit 31 (int n) = int n"
    by (simp only: signed_take_bit_int_eq_self)
  moreover have "sint (of_nat n :: 32 word) = signed_take_bit 31 (int n)"
    using sint_sbintrunc' [where 'a = 32, of "int n"] by simp
  ultimately show ?thesis by simp
qed

lemma of_nat_small_nonzero:
  assumes "n < 2 ^ 31" and "0 < n"
  shows "(of_nat n :: 32 word) \<noteq> 0"
proof
  assume "(of_nat n :: 32 word) = 0"
  then have "sint (of_nat n :: 32 word) = 0" by simp
  then show False using sint_of_nat_small [OF assms(1)] assms(2) by simp
qed

lemma get_average_foldl:
  assumes "length vs < 2 ^ 31"
  shows "get_average (foldl add (average_reset a) vs) =
     (if vs = [] then Finite 0
      else ddiv (foldl dadd (Finite 0) vs) (Finite (of_nat (length vs))))"
proof (cases "vs = []")
  case True
  then show ?thesis by (simp add: get_average_def average_reset_def)
next
  case False
  then have pos: "0 < length vs" by simp
  have c: "average_count (foldl add (average_reset a) vs) = of_nat (length vs)"
    by (simp add: average_count_foldl average_reset_def)
  have s: "average_sum (foldl add (average_reset a) vs) = foldl dadd (Finite 0) vs"
    by (simp add: average_sum_foldl average_reset_def)
  have nz: "(of_nat (length vs) :: 32 word) \<noteq> 0"
    using assms pos by (rule of_nat_small_nonzero)
  have "double_of_int (of_nat (length vs)) = Finite (of_nat (length vs))"
    by (simp add: double_of_int_def sint_of_nat_small [OF assms])
  then show ?thesis
    using False nz by (simp add: get_average_def c s)
qed

lemma round_double_exact:
  "is_double (Finite q) \<Longrightarrow> q \<noteq> 0 \<Longrightarrow> round_double q = Finite q"
  by (simp add: is_double_def)

lemma dadd_exact:
  "is_double (Finite (x + y)) \<Longrightarrow> dadd (Finite x) (Finite y) = Finite (x + y)"
  by (simp add: dadd_def is_inf_def valof_def round_double_exact)

lemma foldl_dadd_exact:
  "exact_sum acc vs \<Longrightarrow> foldl dadd (Finite acc) vs = Finite (acc + sum_list (map valof vs))"
proof (induction vs arbitrary: acc)
  case Nil
  show ?case by simp
next
  case (Cons v vs)
  from Cons.prems obtain q where v: "v = Finite q"
    and d: "is_double (Finite (acc + q))" and rest: "exact_sum (acc + q) vs"
    by (cases v) simp_all
  show ?case
    using Cons.IH [OF rest] by (simp add: v dadd_exact [OF d] valof_def add.assoc)
qed

lemma ddiv_exact:
  assumes "is_double (Finite (x / y))" and "0 < y"
  shows "ddiv (Finite x) (Finite y) = Finite (x / y)"
proof (cases "x = 0")
  case True
  then show ?thesis
    using assms(2) by (simp add: ddiv_def is_inf_def is_zero_def sign_bit_def)
next
  case False
  then have "x / y \<noteq> 0" using assms(2) by simp
  then have "round_double (x / y) = Finite (x / y)"
    using assms(1) by (simp add: round_double_exact)
  then show ?thesis
    using False assms(2) by (simp add: ddiv_def is_inf_def is_zero_def valof_def)
qed

lemma get_average_exact:
  assumes "length vs < 2 ^ 31" and "vs \<noteq> []" and "exact_sum 0 vs"
    and "is_double (Finite (sum_list (map valof vs) / of_nat (length vs)))"
  shows "get_average (foldl add (average_reset a) vs) =
     Finite (sum_list (map valof vs) / of_nat (length vs))"
proof -
  have "foldl dadd (Finite 0) vs = Finite (sum_list (map valof vs))"
    using foldl_dadd_exact [OF assms(3)] by simp
  moreover have "(0 :: rat) < of_nat (length vs)"
    using assms(2) by simp
  ultimately show ?thesis
    using assms(2) by (simp add: get_average_foldl [OF assms(1)] ddiv_exact [OF assms(4)])
qed

lemma dec_nat_nonempty: "dec_nat n \<noteq> []"
  by (subst dec_nat.simps) simp

lemma is_digit_not_point: "is_digit c \<Longrightarrow> c \<noteq> CHR ''.''"
  by (auto simp add: is_digit_def)

lemma dec_nat_digits: "c \<in> set (dec_nat n) \<Longrightarrow> is_digit c"
proof (induction n rule: dec_nat.induct)
  case (1 n)
  show ?case
  proof (cases "n < 10")
    case True
    then show ?thesis using "1.prems" by (simp add: dec_nat_1 is_digit_digit_char)
  next
    case False
    then have "dec_nat n = dec_nat (n div 10) @ [digit_char n]"
      by (subst dec_nat.simps) simp
    then show ?thesis
      using "1.IH" "1.prems" False by (auto simp add: is_digit_digit_char)
  qed
qed

lemma dec_nat_no_point: "CHR ''.'' \<notin> set (dec_nat n)"
  using dec_nat_digits is_digit_not_point by blast

lemma two_decimals_append:
  assumes "w \<noteq> []" and "CHR ''.'' \<notin> set w" and "is_digit a" and "is_digit b"
  shows "two_decimals (w @ ''.'' @ [a, b])"
proof -
  have "Suc 0 \<le> length w" using assms(1) by (cases w) simp_all
  then show ?thesis
    using assms by (simp add: two_decimals_def)
qed

lemma fixed2_two_decimals:
  assumes "is_finite d"
  shows "two_decimals (fixed2 d)"
proof -
  define h where "h = nat (round_half_even (\<bar>valof d\<bar> * 100))"
  define w where "w = (if sign_bit d then ''-'' else []) @ dec_nat (h div 100)"
  have f: "fixed2 d = w @ ''.'' @ [digit_char (h div 10), digit_char h]"
    using assms by (simp add: fixed2_def is_finite_def is_inf_def Let_def h_def w_def)
  have "w \<noteq> []" by (simp add: w_def dec_nat_nonempty)
  moreover have "CHR ''.'' \<notin> set w" by (simp add: w_def dec_nat_no_point)
  ultimately show ?thesis
    unfolding f by (rule two_decimals_append) (rule is_digit_digit_char)+
qed

lemma fixed2_zero: "fixed2 (Finite 0) = ''0.00''"
  by (simp add: fixed2_def round_half_even_def valof_def sign_bit_def digit_char_def
      dec_nat.simps)

text \<open>
  C6, as the code has it. For fewer than \<open>2 ^ 31\<close> samples \<open>vs\<close> added since the last
  reset, the mean is the double quotient of the running double sum (from 0.0, left to
  right, every addition rounded) by the count, and 0.0 when nothing was added. It is
  the arithmetic mean of the samples when no addition and not the division rounds.
  A fresh metric is in its reset state; there the mean is 0.0. The rendering is the
  mean in fixed notation: \<open>0.00\<close> when the count is 0, and ending in a point and
  two digits whenever the mean is finite.
\<close>

theorem average_mean:
  assumes "length vs < 2 ^ 31"
  shows
    "get_average (foldl add (average_reset a) vs) =
       (if vs = [] then Finite 0
        else ddiv (foldl dadd (Finite 0) vs) (Finite (of_nat (length vs)))) \<and>
     (vs \<noteq> [] \<and> exact_sum 0 vs \<and>
      is_double (Finite (sum_list (map valof vs) / of_nat (length vs))) \<longrightarrow>
        get_average (foldl add (average_reset a) vs) =
          Finite (sum_list (map valof vs) / of_nat (length vs))) \<and>
     average_reset (AverageMetric n) = AverageMetric n \<and>
     get_average (AverageMetric n) = Finite 0 \<and>
     get_average (average_reset a) = Finite 0 \<and>
     average_value_string b = fixed2 (get_average b) \<and>
     (average_count b = 0 \<longrightarrow> average_value_string b = ''0.00'') \<and>
     (is_finite (get_average b) \<longrightarrow> two_decimals (average_value_string b))"
proof (intro conjI impI)
  show "get_average (foldl add (average_reset a) vs) =
       (if vs = [] then Finite 0
        else ddiv (foldl dadd (Finite 0) vs) (Finite (of_nat (length vs))))"
    using assms by (rule get_average_foldl)
  show "get_average (foldl add (average_reset a) vs) =
          Finite (sum_list (map valof vs) / of_nat (length vs))"
    if "vs \<noteq> [] \<and> exact_sum 0 vs \<and>
      is_double (Finite (sum_list (map valof vs) / of_nat (length vs)))"
    using that assms by (simp add: get_average_exact)
  show "average_reset (AverageMetric n) = AverageMetric n"
    by (simp add: average_reset_def AverageMetric_def)
  show "get_average (AverageMetric n) = Finite 0"
    by (simp add: get_average_def AverageMetric_def)
  show "get_average (average_reset a) = Finite 0"
    by (simp add: get_average_def average_reset_def)
  show "average_value_string b = fixed2 (get_average b)"
    by (simp add: average_value_string_def)
  show "average_value_string b = ''0.00''" if "average_count b = 0"
    using that by (simp add: average_value_string_def get_average_def fixed2_zero)
  show "two_decimals (average_value_string b)" if "is_finite (get_average b)"
    using that by (simp add: average_value_string_def fixed2_two_decimals)
qed

lemma example_average:
  "exact_sum 0 [Finite 2, Finite 4] \<and> is_double (Finite 3) \<and>
   is_finite (Finite 3) \<and> fixed2 (Finite 3) = ''3.00'' \<and> two_decimals ''3.00''"
  by code_simp

theorem average_mean_witness:
  "length [Finite 2, Finite 4] < (2 :: nat) ^ 31 \<and>
   get_average (foldl add (average_reset (AverageMetric ''A'')) [Finite 2, Finite 4]) = Finite 3 \<and>
   average_value_string (foldl add (average_reset (AverageMetric ''A'')) [Finite 2, Finite 4]) =
     ''3.00'' \<and>
   two_decimals ''3.00'' \<and>
   average_value_string (AverageMetric ''A'') = ''0.00''"
proof -
  let ?vs = "[Finite 2, Finite 4]"
  let ?a = "foldl add (average_reset (AverageMetric ''A'')) ?vs"
  have l: "length ?vs < (2 :: nat) ^ 31"
    by simp
  have c: "average_count (AverageMetric ''A'') = 0"
    by (simp add: AverageMetric_def)
  have e: "sum_list (map valof ?vs) / of_nat (length ?vs) = 3"
    by (simp add: valof_def)
  have pre: "?vs \<noteq> [] \<and> exact_sum 0 ?vs \<and>
      is_double (Finite (sum_list (map valof ?vs) / of_nat (length ?vs)))"
    unfolding e using example_average by blast
  have m: "get_average ?a = Finite 3"
    using average_mean [OF l, of "AverageMetric ''A''" "''A''" ?a] pre unfolding e by blast
  have s: "average_value_string ?a = fixed2 (get_average ?a)"
    using average_mean [OF l, of "AverageMetric ''A''" "''A''" ?a] by blast
  have z: "average_value_string (AverageMetric ''A'') = ''0.00''"
    using average_mean [OF l, of "AverageMetric ''A''" "''A''" "AverageMetric ''A''"] c by blast
  show ?thesis
    using l m s z example_average by (simp only: simp_thms)
qed

text \<open>
  C6 as the claim words it, "mean() equals the arithmetic mean of the v_i", fails:
  after \<^verbatim>\<open>add(9007199254740992.0)\<close>, \<^verbatim>\<open>add(1.0)\<close> and \<^verbatim>\<open>add(1.0)\<close> both additions of 1.0
  are rounded away, and the mean is \<open>3002399751580330.5\<close>. The arithmetic mean of the
  three samples is \<open>9007199254740994 / 3\<close>, and the double nearest to it is
  \<open>3002399751580331.5\<close>.
\<close>

theorem average_mean_counterexample:
  "get_average (foldl add (AverageMetric ''A'') [Finite (2 ^ 53), Finite 1, Finite 1]) =
     Finite (6004799503160661 / 2) \<and>
   sum_list (map valof [Finite (2 ^ 53), Finite 1, Finite 1]) / 3 = 9007199254740994 / 3 \<and>
   (6004799503160661 / 2 :: rat) \<noteq> 9007199254740994 / 3 \<and>
   is_double (Finite (2 ^ 53)) \<and> is_double (Finite 1) \<and>
   round_double (9007199254740994 / 3) = Finite (6004799503160663 / 2)"
  by code_simp

section \<open>The record and the sink\<close>

lemma example_time:
  "0 \<le> example_now \<and> valid_tm (example_localtime (to_time_t example_now)) \<and>
   timestamp example_localtime example_now = ''2026-10-30 13:05:07.042''"
  by code_simp

lemma example_snapshot:
  "snapshot example_metrics = [(''C'', ''5''), (''A'', ''3.00'')]"
  by code_simp

lemma example_names: "\<forall>m\<in>set example_metrics. CHR 0x0A \<notin> set (name m)"
  by (simp add: example_metrics_def increment_def CounterMetric_def add_def AverageMetric_def)

text \<open>
  C2, as the code has it. With the clock at or after the epoch and a \<open>localtime\<close>
  whose fields are in range (the year has four digits), the record handed to the sink
  is the timestamp, then for each metric in registration order a space, the name in
  double quotes, a space and the rendered value, then a newline. The timestamp has the
  shape \<open>YYYY-MM-DD HH:MM:SS.mmm\<close>, the last three digits being the milliseconds, padded
  with zeros. A name is printed as it was registered, nothing in it is escaped: the
  record is one line when no metric name holds a newline. The sink appends: the file
  holds what it held, followed by the record; a missing file is created and holds the
  record.
\<close>

theorem sink_record:
  assumes "0 \<le> now" and "valid_tm (localtime (to_time_t now))"
  shows
    "calls (flush_locked localtime now s) =
       calls s @ map Render [0..<length (metrics (registry s))] @
       [Write (format_record (timestamp localtime now) (snapshot (metrics (registry s))))] @
       map Reset [0..<length (metrics (registry s))] \<and>
     format_record (timestamp localtime now) (snapshot (metrics (registry s))) =
       timestamp localtime now @
       concat (map (\<lambda>m. [CHR '' '', CHR 0x22] @ name m @ [CHR 0x22, CHR '' ''] @ value_string m)
                 (metrics (registry s))) @
       [CHR 0x0A] \<and>
     matches ''dddd-dd-dd dd:dd:dd.ddd'' (timestamp localtime now) \<and>
     timestamp localtime now =
       put_time (localtime (to_time_t now)) @ ''.'' @
       pad_left 3 CHR ''0'' (to_string (now div 1000000 mod 1000)) \<and>
     ((\<forall>m\<in>set (metrics (registry s)). CHR 0x0A \<notin> set (name m)) \<longrightarrow>
        count_list (format_record (timestamp localtime now) (snapshot (metrics (registry s))))
          (CHR 0x0A) = 1) \<and>
     (files s (filename (registry s)) = Regular old \<longrightarrow>
        files (flush_locked localtime now s) =
          (files s)(filename (registry s) :=
             Regular (old @ format_record (timestamp localtime now)
                              (snapshot (metrics (registry s)))))) \<and>
     (files s (filename (registry s)) = Missing \<longrightarrow>
        files (flush_locked localtime now s) =
          (files s)(filename (registry s) :=
             Regular (format_record (timestamp localtime now)
                        (snapshot (metrics (registry s))))))"
proof -
  have shape: "matches ''dddd-dd-dd dd:dd:dd.ddd'' (timestamp localtime now)"
    using assms by (rule timestamp_shape)
  have nl: "CHR 0x0A \<notin> set (timestamp localtime now)"
    using shape by (rule matches_no_newline) simp
  have form: "format_record (timestamp localtime now) (snapshot (metrics (registry s))) =
       timestamp localtime now @
       concat (map (\<lambda>m. [CHR '' '', CHR 0x22] @ name m @ [CHR 0x22, CHR '' ''] @ value_string m)
                 (metrics (registry s))) @
       [CHR 0x0A]"
    by (simp add: format_record_def snapshot_def field_def comp_def)
  have ms: "timestamp localtime now =
       put_time (localtime (to_time_t now)) @ ''.'' @
       pad_left 3 CHR ''0'' (to_string (now div 1000000 mod 1000))"
    using assms(1) by (simp add: timestamp_def ms_count_nonneg)
  have line: "(\<forall>m\<in>set (metrics (registry s)). CHR 0x0A \<notin> set (name m)) \<longrightarrow>
        count_list (format_record (timestamp localtime now) (snapshot (metrics (registry s))))
          (CHR 0x0A) = 1"
    using record_one_line [OF nl] by blast
  have f1: "files s (filename (registry s)) = Regular old \<longrightarrow>
        files (flush_locked localtime now s) =
          (files s)(filename (registry s) :=
             Regular (old @ format_record (timestamp localtime now)
                              (snapshot (metrics (registry s)))))"
    by (simp add: flush_locked_files append_regular)
  have f2: "files s (filename (registry s)) = Missing \<longrightarrow>
        files (flush_locked localtime now s) =
          (files s)(filename (registry s) :=
             Regular (format_record (timestamp localtime now)
                        (snapshot (metrics (registry s)))))"
    by (simp add: flush_locked_files append_missing)
  show ?thesis
    by (intro conjI) (fact flush_locked_calls form shape ms line f1 f2)+
qed

theorem sink_record_witness:
  "0 \<le> example_now \<and> valid_tm (example_localtime (to_time_t example_now)) \<and>
   files (flush_locked example_localtime example_now
            (example_state example_metrics (Regular ''first line'')))
     ''metrics.log'' =
     Regular (''first line'' @ ''2026-10-30 13:05:07.042 '' @ [CHR 0x22] @ ''C'' @ [CHR 0x22] @
              '' 5 '' @ [CHR 0x22] @ ''A'' @ [CHR 0x22] @ '' 3.00'' @ [CHR 0x0A]) \<and>
   count_list (format_record (timestamp example_localtime example_now)
                 (snapshot example_metrics)) (CHR 0x0A) = 1"
proof -
  let ?s = "example_state example_metrics (Regular ''first line'')"
  have h1: "0 \<le> example_now" and h2: "valid_tm (example_localtime (to_time_t example_now))"
    using example_time by blast+
  have ms: "metrics (registry ?s) = example_metrics"
    and fn: "filename (registry ?s) = ''metrics.log''"
    and old: "files ?s ''metrics.log'' = Regular ''first line''"
    by (simp_all add: example_state_def)
  have r: "format_record (timestamp example_localtime example_now) (snapshot example_metrics) =
      ''2026-10-30 13:05:07.042 '' @ [CHR 0x22] @ ''C'' @ [CHR 0x22] @
      '' 5 '' @ [CHR 0x22] @ ''A'' @ [CHR 0x22] @ '' 3.00'' @ [CHR 0x0A]"
    using example_time example_snapshot by (simp add: format_record_def field_def)
  note t = sink_record [where now = example_now and localtime = example_localtime and s = ?s
      and old = "''first line''", OF h1 h2, unfolded ms fn]
  have f: "files (flush_locked example_localtime example_now ?s) ''metrics.log'' =
      Regular (''first line'' @ format_record (timestamp example_localtime example_now)
                 (snapshot example_metrics))"
    using t old by simp
  have n: "count_list (format_record (timestamp example_localtime example_now)
                 (snapshot example_metrics)) (CHR 0x0A) = 1"
    using t example_names by blast
  show ?thesis
    using h1 h2 f n unfolding r by (simp only: simp_thms)
qed

text \<open>
  C2 as the claim words it, "a single line" with a timestamp \<open>YYYY-MM-DD HH:MM:SS.mmm\<close>,
  fails twice. \<^verbatim>\<open>register_metric\<close> takes any string as a name and \<^verbatim>\<open>flush_locked\<close> prints
  it as it is: with one counter registered under the name \<open>l1\<close>, newline, \<open>l2\<close> the
  record written holds two newlines, so it is two lines. With the clock 5 ms before the
  epoch \<^verbatim>\<open>ms.count()\<close> is \<open>-5\<close> (the division and the remainder of C++ truncate), and
  the timestamp written ends in \<open>.0-5\<close>, though every field of the \<^verbatim>\<open>struct tm\<close> is in
  range.
\<close>

theorem sink_record_counterexample:
  "calls (flush_locked example_localtime example_now
            (example_state [Counter (CounterMetric (''l1'' @ [CHR 0x0A] @ ''l2''))] Missing)) =
     [Render 0,
      Write (''2026-10-30 13:05:07.042 '' @ [CHR 0x22] @ ''l1'' @ [CHR 0x0A] @ ''l2'' @
             [CHR 0x22] @ '' 0'' @ [CHR 0x0A]),
      Reset 0] \<and>
   count_list (''2026-10-30 13:05:07.042 '' @ [CHR 0x22] @ ''l1'' @ [CHR 0x0A] @ ''l2'' @
               [CHR 0x22] @ '' 0'' @ [CHR 0x0A]) (CHR 0x0A) = 2 \<and>
   valid_tm (example_localtime (to_time_t (- 5000000))) \<and>
   calls (flush_locked example_localtime (- 5000000) (example_state [] Missing)) =
     [Write (''1970-01-01 00:00:00.0-5'' @ [CHR 0x0A])] \<and>
   \<not> matches ''dddd-dd-dd dd:dd:dd.ddd'' ''1970-01-01 00:00:00.0-5''"
  by code_simp

text \<open>
  C9. A flush cycle on a registry with no metric makes one call, the write of a
  record that is the timestamp followed at once by a newline. The file then holds
  what it held followed by that record (a missing file is created and holds it), and
  the registry still has no metric.
\<close>

theorem flush_no_metrics:
  assumes "metrics (registry s) = []"
  shows
    "calls (flush_locked localtime now s) =
       calls s @ [Write (timestamp localtime now @ [CHR 0x0A])] \<and>
     (files s (filename (registry s)) = Regular old \<longrightarrow>
        files (flush_locked localtime now s) =
          (files s)(filename (registry s) := Regular (old @ timestamp localtime now @ [CHR 0x0A]))) \<and>
     (files s (filename (registry s)) = Missing \<longrightarrow>
        files (flush_locked localtime now s) =
          (files s)(filename (registry s) := Regular (timestamp localtime now @ [CHR 0x0A]))) \<and>
     metrics (registry (flush_locked localtime now s)) = []"
  using assms
  by (simp add: flush_locked_calls flush_locked_files flush_locked_registry append_regular
      append_missing format_record_def snapshot_def)

theorem flush_no_metrics_witness:
  "metrics (registry (example_state [] (Regular ''first line''))) = [] \<and>
   calls (flush_locked example_localtime example_now (example_state [] (Regular ''first line''))) =
     [Write (''2026-10-30 13:05:07.042'' @ [CHR 0x0A])] \<and>
   files (flush_locked example_localtime example_now (example_state [] (Regular ''first line'')))
     ''metrics.log'' = Regular (''first line'' @ ''2026-10-30 13:05:07.042'' @ [CHR 0x0A])"
proof -
  let ?s = "example_state [] (Regular ''first line'')"
  have ms: "metrics (registry ?s) = []"
    and fn: "filename (registry ?s) = ''metrics.log''"
    and old: "files ?s ''metrics.log'' = Regular ''first line''"
    and cs: "calls ?s = []"
    by (simp_all add: example_state_def)
  have ts: "timestamp example_localtime example_now = ''2026-10-30 13:05:07.042''"
    using example_time by blast
  note t = flush_no_metrics [OF ms, of example_localtime example_now "''first line''",
      unfolded fn cs ts]
  show ?thesis
    using ms t old by simp
qed

section \<open>The invariant of the threads\<close>

lemma stop_flag_flush_locked:
  "stop_flag (registry (flush_locked lt now d)) = stop_flag (registry d)"
  by (simp add: flush_locked_registry)

lemma stop_flag_push_back: "stop_flag (push_back m r) = stop_flag r"
  by (simp add: push_back_def)

lemma stop_flag_increment_at:
  "stop_flag (registry (increment_at h v d)) = stop_flag (registry d)"
  by (simp add: increment_at_def split: metric.splits)

lemma stop_flag_add_at:
  "stop_flag (registry (add_at h v d)) = stop_flag (registry d)"
  by (simp add: add_at_def split: metric.splits)

lemmas stop_flag_kept =
  stop_flag_flush_locked stop_flag_push_back stop_flag_increment_at stop_flag_add_at

lemma invariant_init: "invariant (MetricsRegistry fname period fs)"
  by (simp add: invariant_def MetricsRegistry_def stopped_def)

lemma client_lock:
  "invariant s \<Longrightarrow> client_locked (client s i) = (mutex s = Some (Client i))"
  by (simp add: invariant_def)

lemma invariant_step:
  assumes "invariant s" and "step lt s e s'"
  shows "invariant s'"
  using assms(2) assms(1)
proof (cases rule: step.cases)
  case w_lock
  then show ?thesis using assms(1)
    by (auto simp add: invariant_def stopped_def)
next
  case w_while_run
  then show ?thesis using assms(1)
    by (auto simp add: invariant_def stopped_def)
next
  case w_while_stop
  then show ?thesis using assms(1)
    by (auto simp add: invariant_def stopped_def)
next
  case w_wait
  then show ?thesis using assms(1)
    by (auto simp add: invariant_def stopped_def)
next
  case w_wake
  then show ?thesis using assms(1)
    by (auto simp add: invariant_def stopped_def)
next
  case w_relock
  then show ?thesis using assms(1)
    by (auto simp add: invariant_def stopped_def)
next
  case w_if_stop
  then show ?thesis using assms(1)
    by (auto simp add: invariant_def stopped_def)
next
  case w_if_run
  then show ?thesis using assms(1)
    by (auto simp add: invariant_def stopped_def)
next
  case (w_flush now)
  then show ?thesis using assms(1)
    by (auto simp add: invariant_def stopped_def stop_flag_kept)
next
  case w_return
  then show ?thesis using assms(1)
    by (auto simp add: invariant_def stopped_def)
next
  case d_destroy
  then show ?thesis using assms(1)
    by (auto simp add: invariant_def stopped_def)
next
  case d_lock
  then show ?thesis using assms(1)
    by (auto simp add: invariant_def stopped_def)
next
  case d_set
  then show ?thesis using assms(1)
    by (auto simp add: invariant_def stopped_def set_stop_flag_def)
next
  case d_notify
  then show ?thesis using assms(1)
    by (auto simp add: invariant_def stopped_def notify_one_def)
next
  case d_unlock
  then show ?thesis using assms(1)
    by (auto simp add: invariant_def stopped_def)
next
  case d_join
  then show ?thesis using assms(1)
    by (auto simp add: invariant_def stopped_def)
next
  case (c_flush_now i)
  have m: "mutex s \<noteq> Some (Client i)"
    using client_lock [OF assms(1), of i] c_flush_now(3) by simp
  show ?thesis
    unfolding c_flush_now(2) using assms(1) m by (simp add: invariant_def stopped_def)
next
  case (c_flush_lock i)
  show ?thesis
    unfolding c_flush_lock(2) using assms(1) c_flush_lock(3,4)
    by (simp add: invariant_def stopped_def)
next
  case (c_flush i now)
  have m: "mutex s = Some (Client i)"
    using client_lock [OF assms(1), of i] c_flush(3) by simp
  show ?thesis
    unfolding c_flush(2) using assms(1) m
    by (simp add: invariant_def stopped_def stop_flag_kept)
next
  case (c_flush_unlock i)
  have m: "mutex s = Some (Client i)"
    using client_lock [OF assms(1), of i] c_flush_unlock(3) by simp
  show ?thesis
    unfolding c_flush_unlock(2) using assms(1) m
    by (simp add: invariant_def stopped_def)
next
  case (c_register_metric i k n)
  have m: "mutex s \<noteq> Some (Client i)"
    using client_lock [OF assms(1), of i] c_register_metric(3) by simp
  show ?thesis
    unfolding c_register_metric(2) using assms(1) m by (simp add: invariant_def stopped_def)
next
  case (c_register_lock i m)
  show ?thesis
    unfolding c_register_lock(2) using assms(1) c_register_lock(3,4)
    by (simp add: invariant_def stopped_def)
next
  case (c_register i m)
  have m: "mutex s = Some (Client i)"
    using client_lock [OF assms(1), of i] c_register(3) by simp
  show ?thesis
    unfolding c_register(2) using assms(1) m
    by (simp add: invariant_def stopped_def stop_flag_kept)
next
  case (c_register_unlock i)
  have m: "mutex s = Some (Client i)"
    using client_lock [OF assms(1), of i] c_register_unlock(3) by simp
  show ?thesis
    unfolding c_register_unlock(2) using assms(1) m
    by (simp add: invariant_def stopped_def)
next
  case (c_increment i h v)
  show ?thesis
    unfolding c_increment(2) using assms(1)
    by (simp add: invariant_def stopped_def stop_flag_kept)
next
  case (c_add i h v)
  show ?thesis
    unfolding c_add(2) using assms(1)
    by (simp add: invariant_def stopped_def stop_flag_kept)
qed

lemma reachable_invariant: "reachable lt s \<Longrightarrow> invariant s"
  by (induction rule: reachable.induct) (auto intro: invariant_init invariant_step)

section \<open>States of the example run\<close>

lemma example_reach_1:
  "reachable lt (example_system W_blocked D_alive C_idle False None)"
proof -
  have r0: "reachable lt (example_system W_lock D_alive C_idle False None)"
    using reach_init [of lt "''metrics.log''" 1000 "\<lambda>p. Missing"]
    by (simp add: MetricsRegistry_def example_system_def fun_upd_idem)
  have r1: "reachable lt (example_system W_while D_alive C_idle False (Some Worker))"
    using reach_step [OF r0 w_lock] by (simp add: example_system_def)
  have r2: "reachable lt (example_system W_wait D_alive C_idle False (Some Worker))"
    using reach_step [OF r1 w_while_run] by (simp add: example_system_def stopped_def)
  show ?thesis
    using reach_step [OF r2 w_wait] by (simp add: example_system_def)
qed

lemma example_reach_stop:
  "reachable lt (example_system W_relock D_join C_idle True None)"
proof -
  have r1: "reachable lt (example_system W_blocked D_lock C_idle False None)"
    using reach_step [OF example_reach_1 d_destroy] by (simp add: example_system_def)
  have r2: "reachable lt (example_system W_blocked D_set C_idle False (Some Owner))"
    using reach_step [OF r1 d_lock] by (simp add: example_system_def)
  have r3: "reachable lt (example_system W_blocked D_notify C_idle True (Some Owner))"
    using reach_step [OF r2 d_set] by (simp add: example_system_def set_stop_flag_def)
  have r4: "reachable lt (example_system W_relock D_unlock C_idle True (Some Owner))"
    using reach_step [OF r3 d_notify] by (simp add: example_system_def notify_one_def)
  show ?thesis
    using reach_step [OF r4 d_unlock] by (simp add: example_system_def)
qed

lemma example_reach_flush:
  "reachable lt (example_system W_relock D_alive C_flush False (Some (Client 0)))"
proof -
  have r1: "reachable lt (example_system W_blocked D_alive C_flush_lock False None)"
    using reach_step [OF example_reach_1 c_flush_now [of _ 0]]
    by (simp add: example_system_def)
  have r2: "reachable lt (example_system W_blocked D_alive C_flush False (Some (Client 0)))"
    using reach_step [OF r1 c_flush_lock [of _ 0]]
    by (simp add: example_system_def)
  show ?thesis
    using reach_step [OF r2 w_wake] by (simp add: example_system_def)
qed

section \<open>Shutdown\<close>

inductive_cases worker_stepE: "step lt s (Worker, a) s'"

inductive_cases join_stepE: "step lt s (Owner, Join) s'"

inductive_cases flush_stepE: "step lt s (t, Flush now) s'"

lemma step_stopped:
  assumes "step lt s e s'"
  shows "stopped s' = (stopped s \<or> e = (Owner, Set_stop))"
  using assms
  by (cases rule: step.cases) (simp_all add: stopped_def stop_flag_kept set_stop_flag_def)

lemma set_stop_needs_lock:
  assumes "invariant s" and "step lt s (Owner, Set_stop) s'"
  shows "mutex s = Some Owner"
  using assms(2) assms(1)
  by (cases rule: step.cases) (simp add: invariant_def)

lemma worker_steps_when_stopped:
  assumes "invariant s" and "stopped s" and "step lt s (Worker, a) s'"
  shows "a \<noteq> If_stop False \<and> a \<noteq> Flush now \<and> a \<noteq> Wait \<and> a \<noteq> While_stop False"
  using assms(3) assms(1,2)
  by (elim worker_stepE) (simp_all add: invariant_def)

lemma flush_in_flight:
  assumes "invariant s" and "worker s = W_flush"
  shows "\<not> stopped s \<and> mutex s = Some Worker"
  using assms by (auto simp add: invariant_def)

lemma flush_in_flight_step:
  assumes "invariant s" and "worker s = W_flush" and "step lt s e s'"
  shows "\<not> stopped s'"
proof -
  have "e \<noteq> (Owner, Set_stop)"
    using set_stop_needs_lock [OF assms(1)] flush_in_flight [OF assms(1,2)] assms(3) by auto
  then show ?thesis
    using step_stopped [OF assms(3)] flush_in_flight [OF assms(1,2)] by simp
qed

lemma signalled_worker:
  assumes "invariant s" and "signalled (owner s)"
  shows "stopped s \<and> worker s \<noteq> W_blocked \<and> steps_left (worker s) \<le> 3"
proof -
  have st: "stopped s" and nb: "worker s \<noteq> W_blocked"
    using assms by (simp_all add: invariant_def)
  then have "worker s \<noteq> W_wait" and "worker s \<noteq> W_flush"
    using assms(1) by (simp_all add: invariant_def)
  then have "steps_left (worker s) \<le> 3"
    using nb by (cases "worker s") simp_all
  then show ?thesis using st nb by simp
qed

lemma signalled_worker_enabled:
  assumes "invariant s" and "signalled (owner s)" and "worker s \<noteq> W_done"
    and "mutex s = None \<or> mutex s = Some Worker"
  shows "\<exists>b t. step lt s (Worker, b) t"
proof -
  have st: "stopped s" and nb: "worker s \<noteq> W_blocked"
    using signalled_worker [OF assms(1,2)] by simp_all
  have nw: "worker s \<noteq> W_wait" and nf: "worker s \<noteq> W_flush"
    using assms(1) st by (simp_all add: invariant_def)
  have lk: "worker_locked (worker s) = (mutex s = Some Worker)"
    using assms(1) by (simp add: invariant_def)
  show ?thesis
  proof (cases "worker s")
    case W_lock
    then have "mutex s = None" using lk assms(4) by auto
    then show ?thesis using W_lock w_lock by blast
  next
    case W_while
    then show ?thesis using st w_while_stop by blast
  next
    case W_wait
    then show ?thesis using nw by simp
  next
    case W_blocked
    then show ?thesis using nb by simp
  next
    case W_relock
    then have "mutex s = None" using lk assms(4) by auto
    then show ?thesis using W_relock w_relock by blast
  next
    case W_if
    then show ?thesis using st w_if_stop by blast
  next
    case W_flush
    then show ?thesis using nf by simp
  next
    case W_return
    then show ?thesis using w_return by blast
  next
    case W_done
    then show ?thesis using assms(3) by simp
  qed
qed

lemma signalled_worker_step:
  assumes "invariant s" and "signalled (owner s)" and "step lt s (Worker, a) s'"
  shows "Suc (steps_left (worker s')) = steps_left (worker s)"
  using assms(3) signalled_worker [OF assms(1,2)] assms(1)
  by (elim worker_stepE) (simp_all add: invariant_def)

lemma join_needs_done:
  assumes "step lt s (Owner, Join) s'"
  shows "worker s = W_done"
  using assms by (elim join_stepE) simp

lemma worker_holder_enabled:
  assumes "worker_locked (worker s)"
  shows "\<exists>a u. step lt s (Worker, a) u"
proof (cases "worker s")
  case W_while
  show ?thesis
  proof (cases "stopped s")
    case True
    then show ?thesis using W_while w_while_stop by blast
  next
    case False
    then show ?thesis using W_while w_while_run by blast
  qed
next
  case W_wait
  then show ?thesis using w_wait by blast
next
  case W_if
  show ?thesis
  proof (cases "stopped s")
    case True
    then show ?thesis using W_if w_if_stop by blast
  next
    case False
    then show ?thesis using W_if w_if_run by blast
  qed
next
  case W_flush
  then show ?thesis using w_flush by blast
next
  case W_return
  then show ?thesis using w_return by blast
qed (use assms in simp_all)

lemma owner_holder_enabled:
  assumes "owner_locked (owner s)"
  shows "\<exists>a u. step lt s (Owner, a) u"
proof (cases "owner s")
  case D_set
  then show ?thesis using d_set by blast
next
  case D_notify
  then show ?thesis using d_notify by blast
next
  case D_unlock
  then show ?thesis using d_unlock by blast
qed (use assms in simp_all)

lemma client_holder_enabled:
  assumes "client_locked (client s i)"
  shows "\<exists>a u. step lt s (Client i, a) u"
proof (cases "client s i")
  case C_flush
  then show ?thesis using c_flush by blast
next
  case C_flush_unlock
  then show ?thesis using c_flush_unlock by blast
next
  case (C_register m)
  then show ?thesis using c_register by blast
next
  case C_register_unlock
  then show ?thesis using c_register_unlock by blast
qed (use assms in simp_all)

lemma holder_enabled:
  assumes "invariant s" and "mutex s = Some t"
  shows "\<exists>a u. step lt s (t, a) u"
proof (cases t)
  case Worker
  then have "worker_locked (worker s)"
    using assms by (simp add: invariant_def)
  then show ?thesis using Worker worker_holder_enabled by simp
next
  case Owner
  then have "owner_locked (owner s)"
    using assms by (simp add: invariant_def)
  then show ?thesis using Owner owner_holder_enabled by simp
next
  case (Client i)
  then have "client_locked (client s i)"
    using assms client_lock [OF assms(1), of i] by simp
  then show ?thesis using Client client_holder_enabled by simp
qed

text \<open>
  C3. In every reachable state:
  \<^item> once the flag is set the worker is not inside a flush cycle and not about to
    wait, and no step of the worker begins or completes a cycle or goes to sleep;
  \<^item> a cycle in flight runs to completion first: while the worker is inside
    \<open>flush_locked\<close> it owns the mutex, the flag is not set, and no step of any thread
    sets it;
  \<^item> once the destructor has signalled, the worker is not blocked in \<^verbatim>\<open>wait_for\<close> (it
    needs no expiry of the period), it can take its next step whenever the mutex is
    free or its own, each of its steps brings it one nearer to its end, and at most
    three are left;
  \<^item> the thread that owns the mutex can always take its next step, so the worker is
    not kept waiting for the mutex by a thread that cannot move;
  \<^item> \<^verbatim>\<open>join\<close> returns, and the destructor has returned, only when the worker has
    finished.
\<close>

theorem shutdown:
  assumes "reachable localtime s"
  shows
    "(stopped s \<longrightarrow> worker s \<noteq> W_flush \<and> worker s \<noteq> W_wait) \<and>
     (stopped s \<and> step localtime s (Worker, a) s' \<longrightarrow>
        a \<noteq> If_stop False \<and> a \<noteq> Flush now \<and> a \<noteq> Wait \<and> a \<noteq> While_stop False) \<and>
     (worker s = W_flush \<longrightarrow> \<not> stopped s \<and> mutex s = Some Worker) \<and>
     (worker s = W_flush \<and> step localtime s e s'' \<longrightarrow> \<not> stopped s'') \<and>
     (signalled (owner s) \<longrightarrow>
        stopped s \<and> worker s \<noteq> W_blocked \<and> steps_left (worker s) \<le> 3) \<and>
     (signalled (owner s) \<and> worker s \<noteq> W_done \<and> (mutex s = None \<or> mutex s = Some Worker) \<longrightarrow>
        (\<exists>b t. step localtime s (Worker, b) t)) \<and>
     (signalled (owner s) \<and> step localtime s (Worker, a) s' \<longrightarrow>
        Suc (steps_left (worker s')) = steps_left (worker s)) \<and>
     (mutex s = Some h \<longrightarrow> (\<exists>b t. step localtime s (h, b) t)) \<and>
     (step localtime s (Owner, Join) s' \<longrightarrow> worker s = W_done) \<and>
     (owner s = D_done \<longrightarrow> worker s = W_done)"
proof -
  have inv: "invariant s"
    using assms by (rule reachable_invariant)
  have 1: "stopped s \<longrightarrow> worker s \<noteq> W_flush \<and> worker s \<noteq> W_wait"
    using inv by (simp add: invariant_def)
  have 2: "stopped s \<and> step localtime s (Worker, a) s' \<longrightarrow>
        a \<noteq> If_stop False \<and> a \<noteq> Flush now \<and> a \<noteq> Wait \<and> a \<noteq> While_stop False"
    using worker_steps_when_stopped [OF inv] by blast
  have 3: "worker s = W_flush \<longrightarrow> \<not> stopped s \<and> mutex s = Some Worker"
    using flush_in_flight [OF inv] by blast
  have 4: "worker s = W_flush \<and> step localtime s e s'' \<longrightarrow> \<not> stopped s''"
    using flush_in_flight_step [OF inv] by blast
  have 5: "signalled (owner s) \<longrightarrow>
        stopped s \<and> worker s \<noteq> W_blocked \<and> steps_left (worker s) \<le> 3"
    using signalled_worker [OF inv] by blast
  have 6: "signalled (owner s) \<and> worker s \<noteq> W_done \<and>
        (mutex s = None \<or> mutex s = Some Worker) \<longrightarrow>
        (\<exists>b t. step localtime s (Worker, b) t)"
    using signalled_worker_enabled [OF inv] by blast
  have 7: "signalled (owner s) \<and> step localtime s (Worker, a) s' \<longrightarrow>
        Suc (steps_left (worker s')) = steps_left (worker s)"
    using signalled_worker_step [OF inv] by blast
  have 10: "mutex s = Some h \<longrightarrow> (\<exists>b t. step localtime s (h, b) t)"
    using holder_enabled [OF inv] by blast
  have 8: "step localtime s (Owner, Join) s' \<longrightarrow> worker s = W_done"
    using join_needs_done by blast
  have 9: "owner s = D_done \<longrightarrow> worker s = W_done"
    using inv by (simp add: invariant_def)
  show ?thesis
    by (intro conjI) (fact 1 2 3 4 5 6 7 8 9 10)+
qed

lemma example_reach_done:
  "reachable lt (example_system W_done D_done C_idle True None)"
proof -
  have r1: "reachable lt (example_system W_if D_join C_idle True (Some Worker))"
    using reach_step [OF example_reach_stop w_relock] by (simp add: example_system_def)
  have r2: "reachable lt (example_system W_return D_join C_idle True (Some Worker))"
    using reach_step [OF r1 w_if_stop] by (simp add: example_system_def stopped_def)
  have r3: "reachable lt (example_system W_done D_join C_idle True None)"
    using reach_step [OF r2 w_return] by (simp add: example_system_def)
  show ?thesis
    using reach_step [OF r3 d_join] by (simp add: example_system_def)
qed

theorem shutdown_witness:
  "reachable example_localtime (example_system W_done D_done C_idle True None) \<and>
   reachable example_localtime (example_system W_relock D_join C_idle True None) \<and>
   signalled (owner (example_system W_relock D_join C_idle True None)) \<and>
   stopped (example_system W_relock D_join C_idle True None) \<and>
   worker (example_system W_relock D_join C_idle True None) \<noteq> W_blocked \<and>
   steps_left (worker (example_system W_relock D_join C_idle True None)) \<le> 3 \<and>
   (\<exists>b t. step example_localtime (example_system W_relock D_join C_idle True None) (Worker, b) t)"
proof -
  let ?s = "example_system W_relock D_join C_idle True None"
  have r: "reachable example_localtime ?s"
    by (rule example_reach_stop)
  have sg: "signalled (owner ?s)" and nd: "worker ?s \<noteq> W_done" and fr: "mutex ?s = None"
    by (simp_all add: example_system_def)
  show ?thesis
    using shutdown [OF r] r sg nd fr example_reach_done by blast
qed

section \<open>One flush cycle at a time\<close>

lemma worker_flush_holds: "invariant s \<Longrightarrow> worker s = W_flush \<Longrightarrow> mutex s = Some Worker"
  by (simp add: invariant_def)

lemma client_flush_holds: "invariant s \<Longrightarrow> client s i = C_flush \<Longrightarrow> mutex s = Some (Client i)"
  using client_lock [of s i] by simp

lemma client_register_holds:
  "invariant s \<Longrightarrow> client s i = C_register m \<Longrightarrow> mutex s = Some (Client i)"
  using client_lock [of s i] by simp

lemma flush_step_effect:
  assumes "invariant s" and "step lt s (t, Flush now) s'"
  shows "data s' = flush_locked lt now (data s) \<and> mutex s = Some t \<and> mutex s' = Some t"
  using assms(2)
  by (elim flush_stepE)
     (auto dest: worker_flush_holds [OF assms(1)] client_flush_holds [OF assms(1)])

lemma one_flush_at_a_time:
  assumes "invariant s"
  shows "(worker s = W_flush \<longrightarrow> mutex s = Some Worker \<and> (\<forall>j. client s j \<noteq> C_flush)) \<and>
     (client s i = C_flush \<longrightarrow>
        mutex s = Some (Client i) \<and> worker s \<noteq> W_flush \<and> (\<forall>j. client s j = C_flush \<longrightarrow> j = i))"
proof -
  have w: "worker_locked (worker s) = (mutex s = Some Worker)"
    using assms by (simp add: invariant_def)
  have c: "\<And>j. client_locked (client s j) = (mutex s = Some (Client j))"
    using assms by (simp add: invariant_def)
  have a: "worker s = W_flush \<longrightarrow> mutex s = Some Worker \<and> (\<forall>j. client s j \<noteq> C_flush)"
  proof
    assume f: "worker s = W_flush"
    then have m: "mutex s = Some Worker" using w by simp
    have "client s j \<noteq> C_flush" for j
      using c [of j] m by auto
    then show "mutex s = Some Worker \<and> (\<forall>j. client s j \<noteq> C_flush)"
      using m by simp
  qed
  have b: "client s i = C_flush \<longrightarrow>
        mutex s = Some (Client i) \<and> worker s \<noteq> W_flush \<and> (\<forall>j. client s j = C_flush \<longrightarrow> j = i)"
  proof
    assume f: "client s i = C_flush"
    then have m: "mutex s = Some (Client i)" using c [of i] by simp
    have nw: "worker s \<noteq> W_flush" using w m by auto
    have "j = i" if "client s j = C_flush" for j
      using c [of j] m that by simp
    then show "mutex s = Some (Client i) \<and> worker s \<noteq> W_flush \<and>
        (\<forall>j. client s j = C_flush \<longrightarrow> j = i)"
      using m nw by simp
  qed
  show ?thesis using a b by (rule conjI)
qed

lemma calls_increment_at: "calls (increment_at h v d) = calls d"
  and files_increment_at: "files (increment_at h v d) = files d"
  and calls_add_at: "calls (add_at h x d) = calls d"
  and files_add_at: "files (add_at h x d) = files d"
  by (simp_all add: increment_at_def add_at_def split: metric.splits)

lemma others_keep_out:
  assumes "invariant s" and "step lt s (t, a) s'" and "mutex s = Some t'" and "t \<noteq> t'"
  shows "calls (data s') = calls (data s) \<and> files (data s') = files (data s)"
  using assms(2) assms(3,4)
  by (cases rule: step.cases)
     (auto simp add: calls_increment_at files_increment_at calls_add_at files_add_at
        set_stop_flag_def
        dest: worker_flush_holds [OF assms(1)] client_flush_holds [OF assms(1)])

text \<open>
  C4. In every reachable state at most one thread is inside \<open>flush_locked\<close>, the
  worker or one client, and it owns the mutex. Every cycle, the worker's and
  \<^verbatim>\<open>flush_now\<close>'s alike, is the one function \<open>flush_locked\<close>, run by the owner of the
  mutex, which it keeps to the end of the cycle. While a thread owns the mutex no step
  of another thread writes to the sink or adds a call to the log: the cycles take
  place one after another.
\<close>

theorem flush_exclusion:
  assumes "reachable localtime s"
  shows
    "(worker s = W_flush \<longrightarrow> mutex s = Some Worker \<and> (\<forall>j. client s j \<noteq> C_flush)) \<and>
     (client s i = C_flush \<longrightarrow>
        mutex s = Some (Client i) \<and> worker s \<noteq> W_flush \<and>
        (\<forall>j. client s j = C_flush \<longrightarrow> j = i)) \<and>
     (step localtime s (t, Flush now) s' \<longrightarrow>
        data s' = flush_locked localtime now (data s) \<and> mutex s = Some t \<and> mutex s' = Some t) \<and>
     (step localtime s (t, a) s' \<and> mutex s = Some t' \<and> t \<noteq> t' \<longrightarrow>
        calls (data s') = calls (data s) \<and> files (data s') = files (data s)) \<and>
     flush_now localtime now d = flush_locked localtime now d"
proof -
  have inv: "invariant s"
    using assms by (rule reachable_invariant)
  have 1: "step localtime s (t, Flush now) s' \<longrightarrow>
        data s' = flush_locked localtime now (data s) \<and> mutex s = Some t \<and> mutex s' = Some t"
    using flush_step_effect [OF inv] by blast
  have 2: "step localtime s (t, a) s' \<and> mutex s = Some t' \<and> t \<noteq> t' \<longrightarrow>
        calls (data s') = calls (data s) \<and> files (data s') = files (data s)"
    using others_keep_out [OF inv] by blast
  have 3: "flush_now localtime now d = flush_locked localtime now d"
    by (simp add: flush_now_def)
  note 0 = one_flush_at_a_time [OF inv, of i]
  show ?thesis
    by (intro conjI) (fact 0 [THEN conjunct1] 0 [THEN conjunct2] 1 2 3)+
qed

theorem flush_exclusion_witness:
  "reachable example_localtime (example_system W_relock D_alive C_flush False (Some (Client 0))) \<and>
   client (example_system W_relock D_alive C_flush False (Some (Client 0))) 0 = C_flush \<and>
   mutex (example_system W_relock D_alive C_flush False (Some (Client 0))) = Some (Client 0) \<and>
   worker (example_system W_relock D_alive C_flush False (Some (Client 0))) \<noteq> W_flush \<and>
   step example_localtime
     (example_system W_relock D_alive C_flush False (Some (Client 0)))
     (Client 0, Flush example_now)
     ((example_system W_relock D_alive C_flush False (Some (Client 0)))
        \<lparr>data := flush_locked example_localtime example_now
           (data (example_system W_relock D_alive C_flush False (Some (Client 0)))),
         client := (client (example_system W_relock D_alive C_flush False (Some (Client 0))))
           (0 := C_flush_unlock)\<rparr>)"
proof -
  let ?s = "example_system W_relock D_alive C_flush False (Some (Client 0))"
  have r: "reachable example_localtime ?s"
    by (rule example_reach_flush)
  have c: "client ?s 0 = C_flush"
    by (simp add: example_system_def)
  have st: "step example_localtime ?s (Client 0, Flush example_now)
      (?s\<lparr>data := flush_locked example_localtime example_now (data ?s),
          client := (client ?s)(0 := C_flush_unlock)\<rparr>)"
    using c by (rule c_flush)
  show ?thesis
    using flush_exclusion [OF r, of 0] r c st by blast
qed

section \<open>A sink that cannot be written\<close>

lemma worker_flush_step:
  assumes "step lt s (Worker, Flush now) s'"
  shows "worker s' = W_while \<and> data s' = flush_locked lt now (data s) \<and>
     (\<exists>b t. step lt s' (Worker, b) t)"
  using assms
proof (elim flush_stepE)
  assume s': "s' = s\<lparr>data := flush_locked lt now (data s), worker := W_while\<rparr>"
  then have w: "worker s' = W_while" by simp
  have "\<exists>b t. step lt s' (Worker, b) t"
  proof (cases "stopped s'")
    case True
    then show ?thesis using w w_while_stop by blast
  next
    case False
    then show ?thesis using w w_while_run by blast
  qed
  then show ?thesis using s' by simp
qed simp

text \<open>
  C8, as the code has it. When the destination cannot be opened for writing, a flush
  cycle writes nothing and carries on: the file system is as it was, and the registry
  is what it is after a cycle on any other file system, with every metric reset.
  \<^verbatim>\<open>flush_now\<close> returns nothing and throws nothing, so its caller is told nothing. The
  worker is back at the test of its loop and can take its next step. The next cycle
  makes its write call again, and its record is appended once the file can be
  written.
\<close>

theorem sink_failure:
  assumes "files d (filename (registry d)) = Unwritable"
  shows
    "files (flush_now localtime now d) = files d \<and>
     registry (flush_now localtime now d) = registry (flush_now localtime now (d\<lparr>files := fs\<rparr>)) \<and>
     metrics (registry (flush_now localtime now d)) = map reset (metrics (registry d)) \<and>
     (step localtime s (Worker, Flush now) s' \<and> data s = d \<longrightarrow>
        worker s' = W_while \<and> files (data s') = files d \<and>
        (\<exists>b t. step localtime s' (Worker, b) t)) \<and>
     calls (flush_now localtime now' (flush_now localtime now d)) =
       calls (flush_now localtime now d) @
       map Render [0..<length (metrics (registry d))] @
       [Write (format_record (timestamp localtime now')
                 (snapshot (map reset (metrics (registry d)))))] @
       map Reset [0..<length (metrics (registry d))] \<and>
     files (flush_now localtime now'
              ((flush_now localtime now d)
                 \<lparr>files := (files d)(filename (registry d) := Regular old)\<rparr>))
       (filename (registry d)) =
       Regular (old @ format_record (timestamp localtime now')
                        (snapshot (map reset (metrics (registry d)))))"
proof -
  have f: "files (flush_locked localtime now d) = files d"
    using assms by (simp add: flush_locked_files append_unwritable)
  have 1: "files (flush_now localtime now d) = files d"
    using f by (simp add: flush_now_def)
  have 2: "registry (flush_now localtime now d) =
      registry (flush_now localtime now (d\<lparr>files := fs\<rparr>))"
    by (simp add: flush_now_def flush_locked_registry)
  have 3: "metrics (registry (flush_now localtime now d)) = map reset (metrics (registry d))"
    by (simp add: flush_now_def flush_locked_registry)
  have 4: "step localtime s (Worker, Flush now) s' \<and> data s = d \<longrightarrow>
        worker s' = W_while \<and> files (data s') = files d \<and>
        (\<exists>b t. step localtime s' (Worker, b) t)"
    using worker_flush_step [of localtime s now s'] f by auto
  have 5: "calls (flush_now localtime now' (flush_now localtime now d)) =
       calls (flush_now localtime now d) @
       map Render [0..<length (metrics (registry d))] @
       [Write (format_record (timestamp localtime now')
                 (snapshot (map reset (metrics (registry d)))))] @
       map Reset [0..<length (metrics (registry d))]"
    by (simp add: flush_now_def flush_locked_calls flush_locked_registry)
  have 6: "files (flush_now localtime now'
              ((flush_now localtime now d)
                 \<lparr>files := (files d)(filename (registry d) := Regular old)\<rparr>))
       (filename (registry d)) =
       Regular (old @ format_record (timestamp localtime now')
                        (snapshot (map reset (metrics (registry d)))))"
    by (simp add: flush_now_def flush_locked_files flush_locked_registry append_regular)
  show ?thesis
    by (intro conjI) (fact 1 2 3 4 5 6)+
qed

theorem sink_failure_witness:
  "files (example_state example_metrics Unwritable)
     (filename (registry (example_state example_metrics Unwritable))) = Unwritable \<and>
   files (flush_now example_localtime example_now (example_state example_metrics Unwritable)) =
     files (example_state example_metrics Unwritable) \<and>
   metrics (registry (flush_now example_localtime example_now
                        (example_state example_metrics Unwritable))) =
     map reset example_metrics"
proof -
  let ?d = "example_state example_metrics Unwritable"
  have u: "files ?d (filename (registry ?d)) = Unwritable"
    by (simp add: example_state_def)
  have m: "metrics (registry ?d) = example_metrics"
    by (simp add: example_state_def)
  show ?thesis
    using sink_failure [OF u, of example_localtime example_now] u m by simp
qed

text \<open>
  C8 as the claim words it, "the failure is surfaced to the synchronous caller of
  flush_now()", fails: on a destination that cannot be written \<^verbatim>\<open>flush_now\<close> writes
  nothing and leaves the registry exactly as a call whose write succeeds does. It
  returns nothing, so the two calls look the same to their caller.
\<close>

theorem sink_failure_counterexample:
  "files (flush_now example_localtime example_now (example_state example_metrics Unwritable))
     ''metrics.log'' = Unwritable \<and>
   files (flush_now example_localtime example_now
            (example_state example_metrics (Regular ''first line'')))
     ''metrics.log'' \<noteq> Regular ''first line'' \<and>
   registry (flush_now example_localtime example_now (example_state example_metrics Unwritable)) =
   registry (flush_now example_localtime example_now
               (example_state example_metrics (Regular ''first line'')))"
  by (simp add: flush_now_def flush_locked_files flush_locked_registry example_state_def
      ofstream_app_def ofstream_put_def format_record_def)

end
